theory Spec2Isabelle
  imports Main "HOL-Library.AList"
begin

section \<open>preact-custom-element: a shallow embedding of the registration bridge\<close>

text \<open>
  The development follows the full-featured variant of the bridge (the file with
  \<^verbatim>\<open>isDomElement\<close> and \<^verbatim>\<open>nodeToVNode\<close>). JavaScript strings are
  \<open>string\<close>, plain objects used as dictionaries are association lists of their own
  properties in insertion order, read through the properties every object inherits from
  \<^verbatim>\<open>Object.prototype\<close>; object identity is an explicit number carried by every
  object value, the mutable element instance is a record passed through every callback,
  and a call that throws returns the exception as a value. The rendering engine (\<^verbatim>\<open>h\<close>, \<^verbatim>\<open>cloneElement\<close>,
  \<^verbatim>\<open>render\<close>, \<^verbatim>\<open>hydrate\<close>) and the platform
  (\<^verbatim>\<open>setAttribute\<close>, \<^verbatim>\<open>dispatchEvent\<close>, listeners) are modelled
  only as far as the bridge observes them: a vnode constructor, a log of render calls,
  the attribute store with its attribute-changed reaction, and bubbling event dispatch.
  The registry call \<^verbatim>\<open>customElements.define\<close> and the proxy \<^verbatim>\<open>inst.l\<close>
  (through which the rendering engine hands over event listeners) are not part of the
  properties below and are left out.
\<close>

subsection \<open>Name casing\<close>

definition upper_chars :: string where
  "upper_chars = ''ABCDEFGHIJKLMNOPQRSTUVWXYZ''"

definition lower_chars :: string where
  "lower_chars = ''abcdefghijklmnopqrstuvwxyz''"

definition digit_chars :: string where
  "digit_chars = ''0123456789''"

text \<open>The character classes \<^verbatim>\<open>[A-Z]\<close>, \<^verbatim>\<open>[a-z]\<close> and \<^verbatim>\<open>\w\<close>.\<close>

definition is_upper :: "char \<Rightarrow> bool" where
  "is_upper c = (c \<in> set upper_chars)"

definition is_lower :: "char \<Rightarrow> bool" where
  "is_lower c = (c \<in> set lower_chars)"

definition is_word :: "char \<Rightarrow> bool" where
  "is_word c = (c \<in> set (upper_chars @ lower_chars @ digit_chars @ ''_''))"

text \<open>
  \<^verbatim>\<open>toLowerCase\<close> and \<^verbatim>\<open>toUpperCase\<close> on a character. The bridge applies
  them to text its regular expressions matched (ASCII letters, digits and the underscore)
  and to the name of an element.
\<close>

definition toLowerCase_char :: "char \<Rightarrow> char" where
  "toLowerCase_char c =
     (case map_of (zip upper_chars lower_chars) c of Some d \<Rightarrow> d | None \<Rightarrow> c)"

definition toUpperCase_char :: "char \<Rightarrow> char" where
  "toUpperCase_char c =
     (case map_of (zip lower_chars upper_chars) c of Some d \<Rightarrow> d | None \<Rightarrow> c)"

text \<open>
  \<^verbatim>\<open>str.replace(/-(\w)/g, (_, c) => (c ? c.toUpperCase() : ''))\<close>: every hyphen that
  is followed by a word character is dropped and that character is upper-cased; the
  scan resumes after the two matched characters. The captured character is a non-empty
  string, so the replacer's else branch is never taken.
\<close>

fun toCamelCase :: "string \<Rightarrow> string" where
  "toCamelCase (c # d # cs) =
     (if c = CHR ''-'' \<and> is_word d then toUpperCase_char d # toCamelCase cs
      else c # toCamelCase (d # cs))"
| "toCamelCase cs = cs"

text \<open>
  The negative lookahead \<^verbatim>\<open>(?![a-z])\<close> on the rest of the string.
\<close>

definition lookahead_ok :: "string \<Rightarrow> bool" where
  "lookahead_ok rest = (case rest of [] \<Rightarrow> True | c # _ \<Rightarrow> \<not> is_lower c)"

text \<open>
  The length of the match of \<^verbatim>\<open>/[A-Z]+(?![a-z])|[A-Z]/\<close> at the start of \<open>s\<close>
  (\<open>0\<close>: no match here). The first alternative is greedy and backtracks: the lengths
  of the upper-case run are tried longest first, and the first one the lookahead accepts
  wins; only then the second alternative takes a single upper-case letter.
\<close>

definition kebab_match :: "string \<Rightarrow> nat" where
  "kebab_match s =
     (let k = length (takeWhile is_upper s) in
      case filter (\<lambda>n. lookahead_ok (drop n s)) (rev [1..<Suc k]) of
        n # _ \<Rightarrow> n
      | [] \<Rightarrow> (case s of [] \<Rightarrow> 0 | c # _ \<Rightarrow> if is_upper c then 1 else 0))"

text \<open>
  The global replace with the replacer
  \<^verbatim>\<open>($, c) => (c ? '-' : '') + $.toLowerCase()\<close>. The regular expression has no
  capture group, so the replacer's second argument is the match's offset: the hyphen is
  left out exactly for a match at offset \<open>0\<close>.
\<close>

function kebab_replace :: "nat \<Rightarrow> string \<Rightarrow> string" where
  "kebab_replace ofs [] = []"
| "kebab_replace ofs (c # cs) =
     (let n = kebab_match (c # cs) in
      if n = 0 then c # kebab_replace (Suc ofs) cs
      else (if ofs \<noteq> 0 then ''-'' else '''') @ map toLowerCase_char (take n (c # cs))
           @ kebab_replace (ofs + n) (drop n (c # cs)))"
  by pat_completeness auto
termination
  by (relation "measure (\<lambda>(ofs, s). length s)") auto

definition toKebabCase :: "string \<Rightarrow> string" where
  "toKebabCase str = kebab_replace 0 str"

subsection \<open>Recognised names and observed attributes\<close>

text \<open>
  \<^verbatim>\<open>Array.from(new Set(xs))\<close>: the elements in the order of their first occurrence.
\<close>

definition set_add :: "'a \<Rightarrow> 'a list \<Rightarrow> 'a list" where
  "set_add x acc = (if x \<in> set acc then acc else acc @ [x])"

definition uniq :: "'a list \<Rightarrow> 'a list" where
  "uniq xs = fold set_add xs []"

text \<open>
  What \<^verbatim>\<open>register\<close> reads of the component: its \<^verbatim>\<open>observedAttributes\<close> and
  the keys of its \<^verbatim>\<open>propTypes\<close>, when declared.
\<close>

record component =
  comp_id :: nat
  comp_observedAttributes :: "string list option"
  comp_propTypes :: "string list option"

text \<open>
  \<^verbatim>\<open>propNames || Component.observedAttributes || Object.keys(Component.propTypes || {})\<close>.
  An array is truthy even when empty.
\<close>

definition supplied_names :: "string list option \<Rightarrow> component \<Rightarrow> string list" where
  "supplied_names propNames C =
     (case propNames of
        Some ps \<Rightarrow> ps
      | None \<Rightarrow>
          (case comp_observedAttributes C of
             Some ps \<Rightarrow> ps
           | None \<Rightarrow> (case comp_propTypes C of Some ks \<Rightarrow> ks | None \<Rightarrow> [])))"

definition register_propNames :: "string list \<Rightarrow> string list" where
  "register_propNames ps = uniq (map toCamelCase ps @ map toKebabCase ps)"

definition register_observedAttributes :: "string list \<Rightarrow> string list" where
  "register_observedAttributes ps = uniq (map toKebabCase (register_propNames ps))"

subsection \<open>Values\<close>

text \<open>
  A live DOM node, as far as the bridge reads it: its identity (the leading number),
  \<^verbatim>\<open>nodeType\<close>, a text node's \<^verbatim>\<open>data\<close>, an element's
  \<^verbatim>\<open>nodeName\<close>, \<^verbatim>\<open>attributes\<close> (in order) and \<^verbatim>\<open>childNodes\<close>.
\<close>

datatype other_kind = CDataSection | ProcessingInstruction | CommentKind | DocumentFragment

datatype node =
    TextNode nat string
  | ElementNode nat string "(string \<times> string) list" "node list"
  | OtherNode nat other_kind

text \<open>
  The type of a vnode: a tag name, the bridge's own \<^verbatim>\<open>ContextProvider\<close> and
  \<^verbatim>\<open>Slot\<close> components, or the registered component.
\<close>

datatype vtype = Tag string | ContextProvider | Slot | UserComponent nat

text \<open>
  JavaScript values. The bridge does no arithmetic: it compares numbers with
  \<^verbatim>\<open>===\<close>, tests them for truth and hands them to the platform, which turns them
  into strings. A number is therefore carried as the string
  \<^verbatim>\<open>Number.prototype.toString\<close> gives for it (\<^verbatim>\<open>5\<close>, \<^verbatim>\<open>1.5\<close>,
  \<^verbatim>\<open>1e+21\<close>, \<^verbatim>\<open>-Infinity\<close>, \<^verbatim>\<open>NaN\<close>): two numbers have the same
  string exactly when they are the same number, but for the two zeros, which both print
  \<^verbatim>\<open>0\<close> and which \<^verbatim>\<open>===\<close> does not tell apart either.

  Functions, plain objects, DOM nodes, arrays and vnodes are objects: the leading number
  (of a DOM node: the node's) is the object's identity, and \<^verbatim>\<open>===\<close> compares
  nothing else of them. \<open>Fun\<close> and \<open>Obj\<close> are values the caller supplies and the
  bridge never looks into; \<open>Arr\<close> and \<open>VNode\<close> (type, props, children) are built by
  the bridge. \<open>Inherited k\<close> is the value \<^verbatim>\<open>Object.prototype\<close> holds under the
  key \<open>k\<close>: the built-in function \<^verbatim>\<open>Object.prototype.toString\<close> for
  \<^verbatim>\<open>toString\<close>, the function \<^verbatim>\<open>Object\<close> for \<^verbatim>\<open>constructor\<close>, and
  so on.
\<close>

datatype jsval =
    Undefined
  | Null
  | Bool bool
  | Num string
  | Str string
  | BigInt int
  | Sym nat
  | Fun nat
  | Obj nat
  | Inherited string
  | DomV node
  | Arr nat "jsval list"
  | VNode nat vtype "(string \<times> jsval) list" "jsval list"

type_synonym obj = "(string \<times> jsval) list"

text \<open>
  The properties a plain object \<^verbatim>\<open>{}\<close> inherits from
  \<^verbatim>\<open>Object.prototype\<close>.
\<close>

definition object_prototype_keys :: "string list" where
  "object_prototype_keys =
     [''constructor'', ''__defineGetter__'', ''__defineSetter__'', ''hasOwnProperty'',
      ''__lookupGetter__'', ''__lookupSetter__'', ''isPrototypeOf'',
      ''propertyIsEnumerable'', ''toString'', ''valueOf'', ''__proto__'',
      ''toLocaleString'']"

text \<open>
  Property read \<^verbatim>\<open>ob[k]\<close> on a plain object: the object's own property, else the
  inherited one, else \<^verbatim>\<open>undefined\<close>. Property write \<^verbatim>\<open>ob[k] = v\<close> makes
  or updates an own property. (The one key JavaScript treats otherwise on writing is
  \<^verbatim>\<open>__proto__\<close>, whose inherited setter replaces the prototype and stores
  nothing; here a write under that key is stored like any other.)
\<close>

definition obj_get :: "obj \<Rightarrow> string \<Rightarrow> jsval" where
  "obj_get ob k =
     (case map_of ob k of
        Some v \<Rightarrow> v
      | None \<Rightarrow> if k \<in> set object_prototype_keys then Inherited k else Undefined)"

definition obj_set :: "obj \<Rightarrow> string \<Rightarrow> jsval \<Rightarrow> obj" where
  "obj_set ob k v = AList.update k v ob"

text \<open>Object spread \<^verbatim>\<open>{ ...a, ...b }\<close>: the keys of \<open>b\<close> win.\<close>

definition spread :: "obj \<Rightarrow> obj \<Rightarrow> obj" where
  "spread a b = fold (\<lambda>(k, v) ob. obj_set ob k v) b a"

text \<open>Truthiness, \<^verbatim>\<open>typeof\<close>, \<^verbatim>\<open>== null\<close>, \<^verbatim>\<open>??\<close> and \<^verbatim>\<open>===\<close>.\<close>

fun node_id :: "node \<Rightarrow> nat" where
  "node_id (TextNode i _) = i"
| "node_id (ElementNode i _ _ _) = i"
| "node_id (OtherNode i _) = i"

fun truthy :: "jsval \<Rightarrow> bool" where
  "truthy Undefined = False"
| "truthy Null = False"
| "truthy (Bool b) = b"
| "truthy (Num n) = (n \<noteq> ''0'' \<and> n \<noteq> ''NaN'')"
| "truthy (Str s) = (s \<noteq> [])"
| "truthy (BigInt n) = (n \<noteq> 0)"
| "truthy _ = True"

fun typeof :: "jsval \<Rightarrow> string" where
  "typeof Undefined = ''undefined''"
| "typeof Null = ''object''"
| "typeof (Bool _) = ''boolean''"
| "typeof (Num _) = ''number''"
| "typeof (Str _) = ''string''"
| "typeof (BigInt _) = ''bigint''"
| "typeof (Sym _) = ''symbol''"
| "typeof (Fun _) = ''function''"
| "typeof (Inherited k) = (if k = ''__proto__'' then ''object'' else ''function'')"
| "typeof _ = ''object''"

fun loose_null :: "jsval \<Rightarrow> bool" where
  "loose_null Undefined = True"
| "loose_null Null = True"
| "loose_null _ = False"

definition nullish :: "jsval \<Rightarrow> jsval \<Rightarrow> jsval" where
  "nullish a b = (if loose_null a then b else a)"

fun strict_eq :: "jsval \<Rightarrow> jsval \<Rightarrow> bool" where
  "strict_eq Undefined b = (b = Undefined)"
| "strict_eq Null b = (b = Null)"
| "strict_eq (Bool x) b = (b = Bool x)"
| "strict_eq (Num x) b = (x \<noteq> ''NaN'' \<and> b = Num x)"
| "strict_eq (Str x) b = (b = Str x)"
| "strict_eq (BigInt x) b = (b = BigInt x)"
| "strict_eq (Sym x) b = (b = Sym x)"
| "strict_eq (Fun x) b = (b = Fun x)"
| "strict_eq (Obj x) b = (b = Obj x)"
| "strict_eq (Inherited x) b = (b = Inherited x)"
| "strict_eq (DomV n) b = (case b of DomV m \<Rightarrow> node_id n = node_id m | _ \<Rightarrow> False)"
| "strict_eq (Arr i _) b = (case b of Arr j _ \<Rightarrow> i = j | _ \<Rightarrow> False)"
| "strict_eq (VNode i _ _ _) b = (case b of VNode j _ _ _ \<Rightarrow> i = j | _ \<Rightarrow> False)"

text \<open>
  \<^verbatim>\<open>isPrimitive\<close>: \<^verbatim>\<open>null\<close> and \<^verbatim>\<open>undefined\<close>, and what
  \<^verbatim>\<open>typeof\<close> calls a string, a boolean or a number.
\<close>

definition isPrimitive :: "jsval \<Rightarrow> bool" where
  "isPrimitive prop =
     (if loose_null prop then True
      else typeof prop \<in> set [''string'', ''boolean'', ''number''])"

text \<open>
  \<^verbatim>\<open>Node.TEXT_NODE\<close>, \<^verbatim>\<open>Node.ELEMENT_NODE\<close> and the \<^verbatim>\<open>nodeType\<close> of a
  node.
\<close>

definition TEXT_NODE :: nat where "TEXT_NODE = 3"

definition ELEMENT_NODE :: nat where "ELEMENT_NODE = 1"

fun nodeType :: "node \<Rightarrow> nat" where
  "nodeType (TextNode _ _) = 3"
| "nodeType (ElementNode _ _ _ _) = 1"
| "nodeType (OtherNode _ CDataSection) = 4"
| "nodeType (OtherNode _ ProcessingInstruction) = 7"
| "nodeType (OtherNode _ CommentKind) = 8"
| "nodeType (OtherNode _ DocumentFragment) = 11"

text \<open>
  \<^verbatim>\<open>obj.nodeType\<close> of any value: only DOM nodes have one (the opaque objects of the
  model carry no properties).
\<close>

fun nodeType_of :: "jsval \<Rightarrow> nat option" where
  "nodeType_of (DomV n) = Some (nodeType n)"
| "nodeType_of _ = None"

definition isDomElement :: "jsval \<Rightarrow> bool" where
  "isDomElement ob =
     (truthy ob \<and> nodeType_of ob \<in> set [Some TEXT_NODE, Some ELEMENT_NODE])"

text \<open>
  The platform's conversion of a value to a string (an attribute value, a property key).
  A number is carried as its string already; a big integer is written in decimal. The
  bridge converts primitives only; for the object values the generic object string
  stands in.
\<close>

function nat_to_string :: "nat \<Rightarrow> string" where
  "nat_to_string n =
     (if n < 10 then [digit_chars ! n]
      else nat_to_string (n div 10) @ [digit_chars ! (n mod 10)])"
  by pat_completeness auto
termination
  by (relation "measure id") auto

fun ToString :: "jsval \<Rightarrow> string" where
  "ToString Undefined = ''undefined''"
| "ToString Null = ''null''"
| "ToString (Bool b) = (if b then ''true'' else ''false'')"
| "ToString (Num n) = n"
| "ToString (Str s) = s"
| "ToString (BigInt n) =
     (if n < 0 then ''-'' @ nat_to_string (nat (- n)) else nat_to_string (nat n))"
| "ToString _ = ''[object Object]''"

text \<open>
  The two exceptions a call of the bridge can end with: the \<^verbatim>\<open>TypeError\<close> of
  calling something that is not a function, and the \<^verbatim>\<open>InvalidCharacterError\<close>
  of the platform. A call that can throw returns \<open>Inl\<close> of the exception, or \<open>Inr\<close> of
  its result.
\<close>

datatype error = TypeError | InvalidCharacterError

subsection \<open>The element instance\<close>

datatype entry = RenderCall | HydrateCall

text \<open>
  The instance: \<^verbatim>\<open>_vdomComponent\<close>, \<^verbatim>\<open>_props\<close>, \<^verbatim>\<open>_slots\<close> and
  \<^verbatim>\<open>_vdom\<close> of the source; \<^verbatim>\<open>_root\<close> is the shadow root when one is
  attached and the element itself otherwise. The platform's part of the element is its
  attribute store and its child nodes. \<open>rendered\<close> logs every call of
  \<^verbatim>\<open>render\<close> and \<^verbatim>\<open>hydrate\<close> (entry point, tree, container), and
  \<open>next_id\<close> is the identity the next object built by the bridge gets.
\<close>

record inst =
  elem :: nat
  shadow :: "nat option"
  shadow_children :: "node list"
  vdomComponent :: nat
  props :: obj
  slots :: obj
  vdom :: jsval
  attrs :: "(string \<times> string) list"
  childNodes :: "node list"
  rendered :: "(entry \<times> jsval \<times> nat) list"
  next_id :: nat

record options =
  opt_shadow :: bool
  opt_styles :: "string option"

definition root_id :: "inst \<Rightarrow> nat" where
  "root_id st = (case shadow st of Some r \<Rightarrow> r | None \<Rightarrow> elem st)"

text \<open>
  The constructor \<^verbatim>\<open>PreactElement\<close>: \<open>e\<close> is the new element, \<open>r\<close> the shadow
  root \<^verbatim>\<open>attachShadow\<close> would return, \<open>sid\<close> and \<open>tid\<close> the style element and
  its text. \<^verbatim>\<open>_vdom\<close> is not assigned here and reads \<^verbatim>\<open>undefined\<close>.
\<close>

definition PreactElement ::
  "component \<Rightarrow> options option \<Rightarrow> nat \<Rightarrow> nat \<Rightarrow> nat \<Rightarrow> nat \<Rightarrow> inst" where
  "PreactElement C opts e r sid tid =
     (let with_shadow = (case opts of Some ops \<Rightarrow> opt_shadow ops | None \<Rightarrow> False);
          styles = (case opts of Some ops \<Rightarrow> opt_styles ops | None \<Rightarrow> None)
      in \<lparr> elem = e,
           shadow = (if with_shadow then Some r else None),
           shadow_children =
             (case styles of
                Some css \<Rightarrow>
                  (if with_shadow \<and> css \<noteq> []
                   then [ElementNode sid ''STYLE'' [] [TextNode tid css]] else [])
              | None \<Rightarrow> []),
           vdomComponent = comp_id C,
           props = [],
           slots = [],
           vdom = Undefined,
           attrs = [],
           childNodes = [],
           rendered = [],
           next_id = 0 \<rparr>)"

subsection \<open>The rendering engine, as far as the bridge calls it\<close>

text \<open>\<^verbatim>\<open>h(type, props, ...children)\<close> builds a new vnode.\<close>

definition h :: "vtype \<Rightarrow> obj \<Rightarrow> jsval list \<Rightarrow> inst \<Rightarrow> jsval \<times> inst" where
  "h t ps cs st = (VNode (next_id st) t ps cs, st\<lparr>next_id := Suc (next_id st)\<rparr>)"

text \<open>
  \<^verbatim>\<open>cloneElement(vnode, null, ...children)\<close>: a new vnode of the same type and
  props with the given children. The bridge calls it on a truthy \<^verbatim>\<open>_vdom\<close> only,
  which is a vnode; any other value is handed back.
\<close>

definition cloneElement :: "jsval \<Rightarrow> jsval list \<Rightarrow> inst \<Rightarrow> jsval \<times> inst" where
  "cloneElement v cs st =
     (case v of
        VNode _ t ps _ \<Rightarrow> (VNode (next_id st) t ps cs, st\<lparr>next_id := Suc (next_id st)\<rparr>)
      | _ \<Rightarrow> (v, st))"

definition render :: "jsval \<Rightarrow> inst \<Rightarrow> inst" where
  "render tree st = st\<lparr>rendered := rendered st @ [(RenderCall, tree, root_id st)]\<rparr>"

definition hydrate :: "jsval \<Rightarrow> inst \<Rightarrow> inst" where
  "hydrate tree st = st\<lparr>rendered := rendered st @ [(HydrateCall, tree, root_id st)]\<rparr>"

subsection \<open>DOM node to vnode\<close>

text \<open>
  The loop over \<^verbatim>\<open>el.attributes\<close>: every attribute but \<^verbatim>\<open>slot\<close> becomes a
  prop.
\<close>

definition attr_props :: "(string \<times> string) list \<Rightarrow> obj" where
  "attr_props as =
     fold (\<lambda>(name, v) ps. if name = ''slot'' then ps else obj_set ps name (Str v)) as []"

text \<open>
  \<^verbatim>\<open>nodeToVNode\<close>, with the next free identity passed along: the
  \<^verbatim>\<open>children\<close> array is created first, then the children are converted in
  order, then \<^verbatim>\<open>h\<close> builds the vnode; the array is \<^verbatim>\<open>h\<close>'s third
  argument.
\<close>

fun nodeToVNode :: "node \<Rightarrow> nat \<Rightarrow> jsval \<times> nat"
  and nodeToVNode_children :: "node list \<Rightarrow> nat \<Rightarrow> jsval list \<times> nat" where
  "nodeToVNode (TextNode _ d) i = (Str d, i)"
| "nodeToVNode (OtherNode _ _) i = (Null, i)"
| "nodeToVNode (ElementNode _ nm as cs) i =
     (case nodeToVNode_children cs (Suc i) of
        (children, j) \<Rightarrow>
          (VNode j (Tag (map toLowerCase_char nm)) (attr_props as) [Arr i children], Suc j))"
| "nodeToVNode_children [] i = ([], i)"
| "nodeToVNode_children (c # cs) i =
     (case nodeToVNode c i of
        (v, j) \<Rightarrow> (case nodeToVNode_children cs j of (vs, k) \<Rightarrow> (v # vs, k)))"

subsection \<open>Attribute changed\<close>

text \<open>
  The first statement of \<^verbatim>\<open>attributeChangedCallback\<close>: \<^verbatim>\<open>null\<close> and
  \<^verbatim>\<open>undefined\<close> become \<^verbatim>\<open>undefined\<close>, a text or element node is
  converted, anything else is kept.
\<close>

definition normalize_newVal :: "jsval \<Rightarrow> inst \<Rightarrow> jsval \<times> inst" where
  "normalize_newVal newVal st =
     (if loose_null newVal then (Undefined, st)
      else if isDomElement newVal then
        (case newVal of
           DomV n \<Rightarrow> (case nodeToVNode n (next_id st) of (v, j) \<Rightarrow> (v, st\<lparr>next_id := j\<rparr>))
         | _ \<Rightarrow> (newVal, st))
      else (newVal, st))"

definition attributeChangedCallback :: "string \<Rightarrow> jsval \<Rightarrow> jsval \<Rightarrow> inst \<Rightarrow> inst" where
  "attributeChangedCallback name oldVal newVal0 st0 =
     (case normalize_newVal newVal0 st0 of
        (newVal, st1) \<Rightarrow>
          if strict_eq newVal oldVal then st1
          else
            let st2 = st1\<lparr>props := obj_set (obj_set (props st1) (toCamelCase name) newVal)
                                          name newVal\<rparr>
            in if \<not> truthy (vdom st2) then st2
               else
                 (case h (UserComponent (vdomComponent st2)) (spread (props st2) (slots st2)) []
                         st2 of
                    (inner, st3) \<Rightarrow>
                      (case cloneElement (vdom st3) [inner] st3 of
                         (tree, st4) \<Rightarrow> render tree (st4\<lparr>vdom := tree\<rparr>))))"

subsection \<open>The platform's attribute store\<close>

text \<open>
  \<^verbatim>\<open>setAttribute(name, value)\<close> on a custom element whose class observes the
  attributes \<open>observed\<close>: the value is stored as a string, and for an observed name the
  platform then calls \<^verbatim>\<open>attributeChangedCallback\<close> with the previous string (or
  \<^verbatim>\<open>null\<close>) and the new one, also when both are the same string.
  \<^verbatim>\<open>removeAttribute\<close> reports \<^verbatim>\<open>null\<close> as the new value, and nothing for
  an attribute that was not there. The platform lower-cases the name it is given; the
  bridge passes kebab-case names, which have no upper-case letter left.

  \<^verbatim>\<open>setAttribute\<close> throws an \<^verbatim>\<open>InvalidCharacterError\<close>, and changes
  nothing, when the name is not a valid attribute name. Which names are valid is the
  platform's rule and has changed with the DOM standard, so the rule is the parameter
  \<open>valid\<close> of the model. By the standard as it is now, \<open>valid_attribute_name\<close>, a
  name is valid unless it is empty or contains ASCII white space, the null character,
  \<^verbatim>\<open>/\<close>, \<^verbatim>\<open>=\<close> or \<^verbatim>\<open>>\<close>; engines that follow the earlier rule, the
  \<^verbatim>\<open>Name\<close> production of XML, refuse these names and more.
\<close>

definition invalid_name_chars :: string where
  "invalid_name_chars =
     [CHR 0x09, CHR 0x0A, CHR 0x0C, CHR 0x0D, CHR '' '', CHR 0x00,
      CHR ''/'', CHR ''='', CHR ''>'']"

definition valid_attribute_name :: "string \<Rightarrow> bool" where
  "valid_attribute_name name =
     (name \<noteq> [] \<and> list_all (\<lambda>c. c \<notin> set invalid_name_chars) name)"

definition attr_value :: "string option \<Rightarrow> jsval" where
  "attr_value a = (case a of Some s \<Rightarrow> Str s | None \<Rightarrow> Null)"

definition setAttribute ::
  "(string \<Rightarrow> bool) \<Rightarrow> string list \<Rightarrow> string \<Rightarrow> jsval \<Rightarrow> inst \<Rightarrow> error + inst" where
  "setAttribute valid observed name v st =
     (if \<not> valid name then Inl InvalidCharacterError
      else
        let old = map_of (attrs st) name;
            st' = st\<lparr>attrs := AList.update name (ToString v) (attrs st)\<rparr>
        in if name \<in> set observed
           then Inr (attributeChangedCallback name (attr_value old) (Str (ToString v)) st')
           else Inr st')"

definition removeAttribute :: "string list \<Rightarrow> string \<Rightarrow> inst \<Rightarrow> inst" where
  "removeAttribute observed name st =
     (case map_of (attrs st) name of
        None \<Rightarrow> st
      | Some old \<Rightarrow>
          (let st' = st\<lparr>attrs := AList.delete name (attrs st)\<rparr>
           in if name \<in> set observed
              then attributeChangedCallback name (Str old) Null st'
              else st'))"

definition hasAttribute :: "string \<Rightarrow> inst \<Rightarrow> bool" where
  "hasAttribute name st = (map_of (attrs st) name \<noteq> None)"


subsection \<open>The accessor properties\<close>

text \<open>
  The getter and the setter \<^verbatim>\<open>register\<close> defines for every recognised name
  \<open>name\<close>, on a platform whose rule for attribute names is \<open>valid\<close>.
\<close>

definition accessor_get :: "string \<Rightarrow> inst \<Rightarrow> jsval" where
  "accessor_get name st = obj_get (props st) name"

definition accessor_set ::
  "(string \<Rightarrow> bool) \<Rightarrow> string list \<Rightarrow> string \<Rightarrow> jsval \<Rightarrow> inst \<Rightarrow> error + inst" where
  "accessor_set valid observed name v st =
     (let oldVal = nullish (obj_get (props st) name) Null
      in if isPrimitive v then
           (if strict_eq oldVal v then Inr st
            else setAttribute valid observed (toKebabCase name) v st)
         else Inr (attributeChangedCallback (toKebabCase name) oldVal v st))"

subsection \<open>Slots\<close>

text \<open>
  \<^verbatim>\<open>childNode.slot\<close>: the platform defines the \<^verbatim>\<open>slot\<close> property on
  elements only, where it reflects the \<^verbatim>\<open>slot\<close> attribute (the empty string
  when there is none); a text node has no such property and reads
  \<^verbatim>\<open>undefined\<close>.
\<close>

fun node_slot :: "node \<Rightarrow> jsval" where
  "node_slot (ElementNode _ _ as _) =
     Str (case map_of as ''slot'' of Some v \<Rightarrow> v | None \<Rightarrow> [])"
| "node_slot _ = Undefined"

text \<open>
  \<^verbatim>\<open>target.push(x)\<close>: an array gets the element appended (the array is mutated in
  place, which the model writes back under the key it was read from); on any other value
  of the model \<^verbatim>\<open>push\<close> is not a function and the call throws a
  \<^verbatim>\<open>TypeError\<close>.
\<close>

fun array_push :: "jsval \<Rightarrow> jsval \<Rightarrow> error + jsval" where
  "array_push (Arr i xs) x = Inr (Arr i (xs @ [x]))"
| "array_push v x = Inl TypeError"

text \<open>
  One round of the loop of \<^verbatim>\<open>getSlots\<close>; once a round has thrown, the loop is
  over. A value used as a property key is converted to a string, so the key of
  \<^verbatim>\<open>undefined\<close> is \<^verbatim>\<open>"undefined"\<close>. \<^verbatim>\<open>slots[slotName]\<close> is read
  through the prototype: under a key such as \<^verbatim>\<open>constructor\<close> the new object
  already reads a function, no array is created, and \<^verbatim>\<open>push\<close> throws.
\<close>

definition getSlots_step ::
  "node \<Rightarrow> error + obj \<times> inst \<Rightarrow> error + obj \<times> inst" where
  "getSlots_step childNode acc =
     (case acc of
        Inl e \<Rightarrow> Inl e
      | Inr (slots0, st0) \<Rightarrow>
          if \<not> isDomElement (DomV childNode) then Inr (slots0, st0)
          else
            let slotName = node_slot childNode;
                key = ToString slotName;
                (slots1, st1) =
                  (if \<not> truthy (obj_get slots0 key)
                   then (obj_set slots0 key (Arr (next_id st0) []),
                         st0\<lparr>next_id := Suc (next_id st0)\<rparr>)
                   else (slots0, st0));
                (slot, st2) =
                  h Slot [(''name'', if truthy slotName then slotName else Undefined)] [] st1
            in (case array_push (obj_get slots1 key) slot of
                  Inl e \<Rightarrow> Inl e
                | Inr pushed \<Rightarrow> Inr (obj_set slots1 key pushed, st2)))"

definition getSlots :: "inst \<Rightarrow> error + obj \<times> inst" where
  "getSlots st = fold getSlots_step (childNodes st) (Inr ([], st))"

subsection \<open>The context event\<close>

text \<open>
  An event as the bridge builds and reads it, with the flag \<^verbatim>\<open>stopPropagation\<close>
  sets.
\<close>

record event =
  ev_type :: string
  ev_composed :: bool
  ev_bubbles :: bool
  ev_cancelable :: bool
  ev_detail :: obj
  ev_stopped :: bool

text \<open>
  The one listener of the source, the closure the \<^verbatim>\<open>Slot\<close> component creates:
  its identity and the \<^verbatim>\<open>context\<close> it captured. Running it stops the
  propagation and writes the captured context into the event's detail.
\<close>

datatype listener = CtxListener nat jsval

fun invoke :: "listener \<Rightarrow> event \<Rightarrow> event" where
  "invoke (CtxListener _ ctx) e =
     e\<lparr>ev_stopped := True, ev_detail := obj_set (ev_detail e) ''context'' ctx\<rparr>"

text \<open>
  The platform's listener lists, by node and event type. Adding a listener that is
  already there changes nothing.
\<close>

type_synonym registry = "((nat \<times> string) \<times> listener list) list"

definition listeners_at :: "registry \<Rightarrow> nat \<Rightarrow> string \<Rightarrow> listener list" where
  "listeners_at reg n ty = (case map_of reg (n, ty) of Some ls \<Rightarrow> ls | None \<Rightarrow> [])"





text \<open>
  Dispatch. \<open>chain\<close> lists the target and its ancestors, nearest first, each with the
  flag of being a shadow root. An event that does not bubble reaches the listeners of
  its target only; one that is not composed stops at the root of the target's tree.
  All listeners of a node run; the next node is visited unless one of them stopped the
  propagation.
\<close>

fun tree_part :: "(nat \<times> bool) list \<Rightarrow> (nat \<times> bool) list" where
  "tree_part [] = []"
| "tree_part ((n, is_shadow_root) # rest) =
     (if is_shadow_root then [(n, is_shadow_root)] else (n, is_shadow_root) # tree_part rest)"

definition event_path :: "event \<Rightarrow> (nat \<times> bool) list \<Rightarrow> nat list" where
  "event_path e chain =
     map fst (if \<not> ev_bubbles e then take 1 chain
              else if ev_composed e then chain
              else tree_part chain)"

fun propagate :: "registry \<Rightarrow> nat list \<Rightarrow> event \<Rightarrow> event" where
  "propagate reg [] e = e"
| "propagate reg (n # ns) e =
     (let e' = fold invoke (listeners_at reg n (ev_type e)) e
      in if ev_stopped e' then e' else propagate reg ns e')"

definition dispatchEvent :: "registry \<Rightarrow> (nat \<times> bool) list \<Rightarrow> event \<Rightarrow> event" where
  "dispatchEvent reg chain e = propagate reg (event_path e chain) e"

subsection \<open>Connecting and disconnecting\<close>

text \<open>
  The render root and the ancestors of the element, as the chain an event dispatched at
  the render root travels.
\<close>

definition root_chain :: "inst \<Rightarrow> (nat \<times> bool) list \<Rightarrow> (nat \<times> bool) list" where
  "root_chain st ancestors =
     (case shadow st of
        Some r \<Rightarrow> (r, True) # (elem st, False) # ancestors
      | None \<Rightarrow> (elem st, False) # ancestors)"

definition ctx_event :: event where
  "ctx_event =
     \<lparr> ev_type = ''_preact-ctx'', ev_composed = True, ev_bubbles = True,
       ev_cancelable = True, ev_detail = [], ev_stopped = False \<rparr>"

text \<open>
  \<^verbatim>\<open>connectedCallback\<close>, in a document whose listeners are \<open>reg\<close> and where the
  element's ancestors are \<open>ancestors\<close>. When \<^verbatim>\<open>getSlots\<close> throws, nothing
  after it runs.
\<close>

definition connectedCallback ::
  "registry \<Rightarrow> (nat \<times> bool) list \<Rightarrow> inst \<Rightarrow> error + inst" where
  "connectedCallback reg ancestors st0 =
     (case getSlots st0 of
        Inl e \<Rightarrow> Inl e
      | Inr (slots0, st1) \<Rightarrow>
          let children = obj_get slots0 [];
              namedSlots = filter (\<lambda>(k, v). k \<noteq> []) slots0;
              st2 = st1\<lparr>slots := spread [(''children'', children)] namedSlots\<rparr>;
              ev = dispatchEvent reg (root_chain st2 ancestors) ctx_event;
              ctx = obj_get (ev_detail ev) ''context''
          in (case h (UserComponent (vdomComponent st2)) (spread (props st2) (slots st2)) []
                     st2 of
                (inner, st3) \<Rightarrow>
                  (case h ContextProvider [(''context'', ctx)] [inner] st3 of
                     (tree, st4) \<Rightarrow>
                       Inr ((if hasAttribute ''hydrate'' st4 then hydrate else render) tree
                              (st4\<lparr>vdom := tree\<rparr>)))))"

definition disconnectedCallback :: "inst \<Rightarrow> inst" where
  "disconnectedCallback st = render Null (st\<lparr>props := [], slots := [], vdom := Null\<rparr>)"

subsection \<open>Vocabulary of the properties\<close>

text \<open>
  The casing rule in words, character by character: every upper-case letter is
  lower-cased, and a hyphen is put before an upper-case letter that is not the first
  character when the character before it is not upper-case (the letter starts an
  upper-case run) or the character after it is lower-case (the letter starts a
  capitalised word). \<open>prev\<close> is the character before the rest of the string, if any.
\<close>

definition boundary :: "char option \<Rightarrow> string \<Rightarrow> bool" where
  "boundary prev rest =
     (case prev of
        None \<Rightarrow> False
      | Some p \<Rightarrow> \<not> is_upper p \<or> (case rest of [] \<Rightarrow> False | d # _ \<Rightarrow> is_lower d))"

fun hyphenate :: "char option \<Rightarrow> string \<Rightarrow> string" where
  "hyphenate prev [] = []"
| "hyphenate prev (c # cs) =
     (if is_upper c \<and> boundary prev cs then ''-'' else [])
       @ toLowerCase_char c # hyphenate (Some c) cs"

text \<open>
  The stored value of \<open>name\<close> mirrors the attribute of its kebab-case form: it is the
  attribute's string, and \<^verbatim>\<open>undefined\<close> when the element has no such attribute.
  A new instance is in this state for every name but those of
  \<open>object_prototype_keys\<close>, under which its empty \<^verbatim>\<open>_props\<close> reads an
  inherited value.
\<close>

definition mirrors :: "inst \<Rightarrow> string \<Rightarrow> bool" where
  "mirrors st name =
     (obj_get (props st) name =
        (case map_of (attrs st) (toKebabCase name) of
           Some s \<Rightarrow> Str s
         | None \<Rightarrow> Undefined))"





text \<open>
  Calls in sequence: an observation of the instance a call returned, and a call made on
  the instance an earlier call returned. An exception ends the sequence.
\<close>

definition on_return :: "(inst \<Rightarrow> 'a) \<Rightarrow> error + inst \<Rightarrow> error + 'a" where
  "on_return f r = (case r of Inl e \<Rightarrow> Inl e | Inr st \<Rightarrow> Inr (f st))"

definition then_call :: "error + inst \<Rightarrow> (inst \<Rightarrow> error + inst) \<Rightarrow> error + inst" where
  "then_call r f = (case r of Inl e \<Rightarrow> Inl e | Inr st \<Rightarrow> f st)"

definition render_count :: "inst \<Rightarrow> nat" where
  "render_count st = length (rendered st)"

text \<open>
  For the slot groups: the key a child is filed under, the children the loop does not
  skip, what it means for a vnode to be the placeholder of a child, and the placeholders
  stored under a key.
\<close>

definition slot_key :: "node \<Rightarrow> string" where
  "slot_key c = ToString (node_slot c)"

definition qualifying :: "node list \<Rightarrow> node list" where
  "qualifying cs = filter (\<lambda>c. isDomElement (DomV c)) cs"

definition placeholder_of :: "node \<Rightarrow> jsval \<Rightarrow> bool" where
  "placeholder_of c v =
     (case v of
        VNode _ Slot ps [] \<Rightarrow>
          ps = [(''name'', if truthy (node_slot c) then node_slot c else Undefined)]
      | _ \<Rightarrow> False)"

definition group_of :: "obj \<Rightarrow> string \<Rightarrow> jsval list" where
  "group_of sl k = (case obj_get sl k of Arr _ vs \<Rightarrow> vs | _ \<Rightarrow> [])"

definition arrays_only :: "obj \<Rightarrow> bool" where
  "arrays_only sl = list_all (\<lambda>(k, v). case v of Arr _ _ \<Rightarrow> True | _ \<Rightarrow> False) sl"

subsection \<open>The running examples\<close>

text \<open>
  The first registration of the test suite,
  \<^verbatim>\<open>registerElement(Clock, 'x-clock', ['time', 'custom-date'])\<close>, and an element
  \<^verbatim>\<open>document.createElement('x-clock')\<close> of it: as created, after it was appended
  to a document without listeners, and after the sequence set attribute
  \<^verbatim>\<open>time="a"\<close>, append, remove. The platform of the examples follows the
  standard's rule for attribute names; the attribute names set in the examples are
  lower-case words joined by hyphens, which the earlier rule accepts as well.
\<close>

definition Clock :: component where
  "Clock = \<lparr> comp_id = 0, comp_observedAttributes = None, comp_propTypes = None \<rparr>"

definition clock_names :: "string list" where
  "clock_names = supplied_names (Some [''time'', ''custom-date'']) Clock"

definition clock_observed :: "string list" where
  "clock_observed = register_observedAttributes clock_names"

definition clock_element :: inst where
  "clock_element = PreactElement Clock None 1 2 3 4"

definition clock_connected :: "error + inst" where
  "clock_connected = connectedCallback [] [] clock_element"

definition clock_detached :: "error + inst" where
  "clock_detached =
     then_call
       (then_call (setAttribute valid_attribute_name clock_observed ''time'' (Str ''a'') clock_element)
          (connectedCallback [] []))
       (\<lambda>st. Inr (disconnectedCallback st))"

text \<open>
  A registration whose one supplied name is a name every object inherits,
  \<^verbatim>\<open>register(Printable, 'x-printable', ['toString'])\<close>, and a new element of it.
\<close>

definition Printable :: component where
  "Printable = \<lparr> comp_id = 2, comp_observedAttributes = None, comp_propTypes = None \<rparr>"

definition printable_names :: "string list" where
  "printable_names = supplied_names (Some [''toString'']) Printable"

definition printable_observed :: "string list" where
  "printable_observed = register_observedAttributes printable_names"

definition printable_element :: inst where
  "printable_element = PreactElement Printable None 20 21 22 23"

text \<open>
  The context test of the suite:
  \<^verbatim>\<open>registerElement(DisplayTheme, 'x-display-theme', [], { shadow: true })\<close>, with
  the element a child of \<^verbatim>\<open>x-parent\<close>. Its ancestors are the \<^verbatim>\<open>slot\<close>
  element it is assigned to (node 50), the \<^verbatim>\<open>div\<close> around that (51), the
  parent's shadow root (60) and the parent (61).
\<close>

definition DisplayTheme :: component where
  "DisplayTheme = \<lparr> comp_id = 1, comp_observedAttributes = None, comp_propTypes = None \<rparr>"

definition theme_element :: inst where
  "theme_element =
     PreactElement DisplayTheme (Some \<lparr> opt_shadow = True, opt_styles = None \<rparr>) 10 11 12 13"





section \<open>Properties\<close>

subsection \<open>Name casing\<close>

lemma toLowerCase_char_not_upper: "\<not> is_upper (toLowerCase_char c)"
  by (auto simp: toLowerCase_char_def is_upper_def upper_chars_def lower_chars_def)

lemma toLowerCase_char_id: "\<not> is_upper c \<Longrightarrow> toLowerCase_char c = c"
  by (auto simp: toLowerCase_char_def is_upper_def upper_chars_def lower_chars_def)

lemma toLowerCase_char_hyphen: "(toLowerCase_char c = CHR ''-'') = (c = CHR ''-'')"
  by (auto simp: toLowerCase_char_def is_upper_def upper_chars_def lower_chars_def)

lemma hyphen_not_upper: "\<not> is_upper (CHR ''-'')"
  by (simp add: is_upper_def upper_chars_def)

lemma upper_not_lower: "is_upper c \<Longrightarrow> \<not> is_lower c"
  by (auto simp: is_upper_def is_lower_def upper_chars_def lower_chars_def)

lemma kebab_match_not_upper: "\<not> is_upper c \<Longrightarrow> kebab_match (c # cs) = 0"
  by (simp add: kebab_match_def)

lemma kebab_match_upper: "is_upper c \<Longrightarrow> 0 < kebab_match (c # cs)"
proof -
  assume u: "is_upper c"
  let ?s = "c # cs"
  let ?k = "length (takeWhile is_upper ?s)"
  let ?c = "filter (\<lambda>n. lookahead_ok (drop n ?s)) (rev [1..<Suc ?k])"
  show ?thesis
  proof (cases ?c)
    case Nil
    with u show ?thesis by (simp add: kebab_match_def)
  next
    case (Cons n ns)
    then have "n \<in> set ?c" by simp
    then have "1 \<le> n" by auto
    with Cons show ?thesis by (simp add: kebab_match_def)
  qed
qed

text \<open>
  The match in closed form: the whole run of upper-case letters, unless a lower-case
  letter follows it; then the run without its last letter, which starts the next match
  (or that single letter, when the run has no other).
\<close>

lemma rev_upt_Suc: "0 < k \<Longrightarrow> rev [Suc 0..<Suc k] = k # rev [Suc 0..<k]"
  by (cases k) simp_all

lemma rev_upt_pred: "2 \<le> k \<Longrightarrow> rev [Suc 0..<k] = (k - 1) # rev [Suc 0..<k - 1]"
  by (cases k) simp_all

lemma kebab_match_unfold:
  "kebab_match s =
     (case filter (\<lambda>n. lookahead_ok (drop n s))
             (rev [Suc 0..<Suc (length (takeWhile is_upper s))]) of
        n # _ \<Rightarrow> n
      | [] \<Rightarrow> (case s of [] \<Rightarrow> 0 | c # _ \<Rightarrow> if is_upper c then 1 else 0))"
  unfolding kebab_match_def Let_def One_nat_def ..

lemma kebab_match_closed:
  "kebab_match s =
     (let k = length (takeWhile is_upper s) in
      if k = 0 then 0
      else if lookahead_ok (drop k s) then k
      else if 2 \<le> k then k - 1 else 1)"
proof -
  let ?k = "length (takeWhile is_upper s)"
  let ?P = "\<lambda>n. lookahead_ok (drop n s)"
  show ?thesis
  proof (cases "?k = 0")
    case True
    then have "takeWhile is_upper s = []" by simp
    then have "s = [] \<or> (\<exists>c cs. s = c # cs \<and> \<not> is_upper c)"
      by (cases s) (auto split: if_splits)
    then have "kebab_match s = 0"
      by (auto simp: kebab_match_unfold)
    with True show ?thesis by simp
  next
    case False
    then have k: "0 < ?k" by simp
    then obtain c cs where s: "s = c # cs" and c: "is_upper c"
      by (cases s) (auto split: if_splits)
    have top: "rev [Suc 0..<Suc ?k] = ?k # rev [Suc 0..<?k]"
      using k by (rule rev_upt_Suc)
    show ?thesis
    proof (cases "?P ?k")
      case True
      then have "filter ?P (rev [Suc 0..<Suc ?k]) = ?k # filter ?P (rev [Suc 0..<?k])"
        by (simp only: top filter.simps if_True)
      then have "kebab_match s = ?k" by (simp only: kebab_match_unfold list.case)
      with True False show ?thesis by (simp only: Let_def if_True if_False)
    next
      case nl: False
      then have f1: "filter ?P (rev [Suc 0..<Suc ?k]) = filter ?P (rev [Suc 0..<?k])"
        by (simp only: top filter.simps if_False)
      show ?thesis
      proof (cases "2 \<le> ?k")
        case True
        then have r: "rev [Suc 0..<?k] = (?k - 1) # rev [Suc 0..<?k - 1]"
          by (rule rev_upt_pred)
        have lt: "?k - 1 < length (takeWhile is_upper s)" using k by simp
        have ls: "?k - 1 < length s" using lt length_takeWhile_le[of is_upper s] by linarith
        have "Suc (?k - 1) = ?k" using k by simp
        with Cons_nth_drop_Suc[OF ls]
        have d: "drop (?k - 1) s = s ! (?k - 1) # drop ?k s" by simp
        have "takeWhile is_upper s ! (?k - 1) = s ! (?k - 1)"
          using lt by (rule takeWhile_nth)
        moreover have "takeWhile is_upper s ! (?k - 1) \<in> set (takeWhile is_upper s)"
          using lt by (rule nth_mem)
        ultimately have "is_upper (s ! (?k - 1))"
          using set_takeWhileD[of "s ! (?k - 1)" is_upper s] by simp
        then have "?P (?k - 1)"
          by (simp only: d lookahead_ok_def list.case upper_not_lower not_False_eq_True)
        then have "filter ?P (rev [Suc 0..<Suc ?k])
                     = (?k - 1) # filter ?P (rev [Suc 0..<?k - 1])"
          by (simp only: f1 r filter.simps if_True)
        then have "kebab_match s = ?k - 1" by (simp only: kebab_match_unfold list.case)
        with nl False True show ?thesis by (simp only: Let_def if_True if_False)
      next
        case k1: False
        with k have "?k = Suc 0" by linarith
        then have "rev [Suc 0..<?k] = []" by simp
        then have "filter ?P (rev [Suc 0..<Suc ?k]) = []" by (simp only: f1 filter.simps)
        then have "kebab_match s = (if is_upper c then 1 else 0)"
          by (simp only: kebab_match_unfold list.case s)
        with c have "kebab_match s = 1" by simp
        with nl False k1 show ?thesis by (simp only: Let_def if_True if_False)
      qed
    qed
  qed
qed

lemma lookahead_ok_upper: "is_upper d \<Longrightarrow> lookahead_ok (d # ds)"
  by (simp add: lookahead_ok_def upper_not_lower)

lemma not_lookahead_ok: "\<not> lookahead_ok rest \<Longrightarrow> \<exists>d ds. rest = d # ds \<and> is_lower d"
  by (cases rest) (simp_all add: lookahead_ok_def)

text \<open>
  What a match at an upper-case letter looks like: a run whose end the lookahead accepts,
  after which an upper-case letter can only follow when a lower-case letter follows that
  one; or a single letter before a lower-case letter.
\<close>

lemma kebab_match_cases:
  assumes k: "takeWhile is_upper s \<noteq> []"
  obtains (run) "0 < kebab_match s"
      "\<forall>u \<in> set (take (kebab_match s) s). is_upper u"
      "lookahead_ok (drop (kebab_match s) s)"
      "\<And>d ds. drop (kebab_match s) s = d # ds \<Longrightarrow> is_upper d \<Longrightarrow> \<not> lookahead_ok ds"
    | (single) "kebab_match s = 1" "\<not> lookahead_ok (drop 1 s)"
proof -
  define k where "k = length (takeWhile is_upper s)"
  have k0: "0 < k" using k by (simp add: k_def)
  have tw: "take k s = takeWhile is_upper s"
    unfolding k_def by (metis append_eq_conv_conj takeWhile_dropWhile_id)
  have dw: "drop k s = dropWhile is_upper s"
    unfolding k_def by (metis append_eq_conv_conj takeWhile_dropWhile_id)
  have closed: "kebab_match s =
      (if k = 0 then 0 else if lookahead_ok (drop k s) then k
       else if 2 \<le> k then k - 1 else 1)"
    unfolding k_def by (simp add: kebab_match_closed Let_def)
  show ?thesis
  proof (cases "lookahead_ok (drop k s)")
    case True
    then have n: "kebab_match s = k" using k0 by (simp add: closed)
    have a: "\<forall>u \<in> set (take k s). is_upper u"
      unfolding tw by (auto dest: set_takeWhileD)
    have e: "\<not> lookahead_ok ds" if "drop k s = d # ds" "is_upper d" for d ds
      using that unfolding dw by (metis hd_dropWhile list.sel(1) list.distinct(1))
    show ?thesis
    proof (rule run)
      show "0 < kebab_match s" using n k0 by simp
      show "\<forall>u \<in> set (take (kebab_match s) s). is_upper u" using a n by simp
      show "lookahead_ok (drop (kebab_match s) s)" using True n by simp
      show "\<not> lookahead_ok ds" if "drop (kebab_match s) s = d # ds" "is_upper d" for d ds
        using e that n by simp
    qed
  next
    case nl: False
    show ?thesis
    proof (cases "2 \<le> k")
      case True
      then have n: "kebab_match s = k - 1" using k0 nl by (simp add: closed)
      have lt: "k - 1 < length (takeWhile is_upper s)" using k0 by (simp add: k_def)
      have ls: "k - 1 < length s" using lt length_takeWhile_le[of is_upper s] by linarith
      have "Suc (k - 1) = k" using k0 by simp
      with Cons_nth_drop_Suc[OF ls]
      have d: "drop (k - 1) s = s ! (k - 1) # drop k s" by simp
      have "takeWhile is_upper s ! (k - 1) = s ! (k - 1)"
        using lt by (rule takeWhile_nth)
      moreover have "takeWhile is_upper s ! (k - 1) \<in> set (takeWhile is_upper s)"
        using lt by (rule nth_mem)
      ultimately have up: "is_upper (s ! (k - 1))"
        using set_takeWhileD[of "s ! (k - 1)" is_upper s] by simp
      have "take (k - 1) s = take (k - 1) (take k s)" by (simp add: min_def)
      then have "set (take (k - 1) s) \<subseteq> set (takeWhile is_upper s)"
        unfolding tw by (metis set_take_subset)
      then have a: "\<forall>u \<in> set (take (k - 1) s). is_upper u"
        by (auto dest: set_takeWhileD)
      have b: "lookahead_ok (drop (k - 1) s)" unfolding d using up by (rule lookahead_ok_upper)
      have e: "\<not> lookahead_ok ds" if "drop (k - 1) s = d' # ds" for d' ds
        using that nl unfolding d by simp
      have p: "0 < k - 1" using True by simp
      show ?thesis
      proof (rule run)
        show "0 < kebab_match s" using n p by simp
        show "\<forall>u \<in> set (take (kebab_match s) s). is_upper u" using a n by simp
        show "lookahead_ok (drop (kebab_match s) s)" using b n by simp
        show "\<not> lookahead_ok ds" if "drop (kebab_match s) s = d' # ds" "is_upper d'" for d' ds
          using e that n by simp
      qed
    next
      case False
      with k0 have k1: "k = Suc 0" by linarith
      then have n: "kebab_match s = 1" using nl by (simp add: closed)
      from nl k1 have "\<not> lookahead_ok (drop 1 s)" by simp
      with n show ?thesis by (rule single)
    qed
  qed
qed

lemma hyphenate_run:
  "\<forall>u \<in> set us. is_upper u \<Longrightarrow> is_upper p \<Longrightarrow> lookahead_ok rest \<Longrightarrow>
   hyphenate (Some p) (us @ rest)
     = map toLowerCase_char us @ hyphenate (Some (last (p # us))) rest"
proof (induction us arbitrary: p)
  case Nil
  then show ?case by simp
next
  case (Cons u us)
  have "lookahead_ok (us @ rest)"
    using Cons.prems by (cases us) (simp_all add: lookahead_ok_upper)
  then have "\<not> boundary (Some p) (us @ rest)"
    using Cons.prems(2) by (auto simp: boundary_def lookahead_ok_def split: list.splits)
  with Cons show ?case by simp
qed

text \<open>The global replace computes the rule in words.\<close>

lemma kebab_replace_hyphenate:
  assumes "(ofs = 0) = (prev = None)"
      and "\<And>p c cs. prev = Some p \<Longrightarrow> is_upper p \<Longrightarrow> s = c # cs \<Longrightarrow> is_upper c
             \<Longrightarrow> \<not> lookahead_ok cs"
  shows "kebab_replace ofs s = hyphenate prev s"
  using assms
proof (induction ofs s arbitrary: prev rule: kebab_replace.induct)
  case (1 ofs)
  then show ?case by simp
next
  case (2 ofs c cs)
  define n where "n = kebab_match (c # cs)"
  define rest where "rest = drop n (c # cs)"
  define us where "us = take n (c # cs)"
  have step: "kebab_replace ofs (c # cs)
      = (if n = 0 then c # kebab_replace (Suc ofs) cs
         else (if ofs \<noteq> 0 then ''-'' else []) @ map toLowerCase_char us
                @ kebab_replace (ofs + n) rest)"
    by (simp add: n_def rest_def us_def Let_def del: take_Suc_Cons drop_Suc_Cons)
  show ?case
  proof (cases "is_upper c")
    case False
    then have n0: "kebab_match (c # cs) = 0" by (rule kebab_match_not_upper)
    have "kebab_replace (Suc ofs) cs = hyphenate (Some c) cs"
      using False by (intro "2.IH"(1)[OF refl n0]) simp_all
    with n0 False show ?thesis by (simp add: toLowerCase_char_id)
  next
    case True
    then have "takeWhile is_upper (c # cs) \<noteq> []" by simp
    then show ?thesis
    proof (cases rule: kebab_match_cases)
      case run
      from run(1) have n0: "n \<noteq> 0" by (simp add: n_def)
      from run(1) obtain us' where us: "us = c # us'"
        unfolding us_def n_def by (cases "kebab_match (c # cs)") auto
      have "c # cs = us @ rest" by (simp add: us_def rest_def)
      then have cs: "cs = us' @ rest" using us by simp
      have up': "\<forall>u \<in> set us'. is_upper u" using run(2) us by (simp add: us_def n_def)
      have lr: "lookahead_ok rest" using run(3) by (simp add: rest_def n_def)
      have la: "lookahead_ok (us' @ rest)"
        using up' lr by (cases us') (simp_all add: lookahead_ok_upper)
      have pn: "\<not> is_upper p" if "prev = Some p" for p
        using "2.prems"(2)[OF that _ refl True] la cs by auto
      have b: "boundary prev (us' @ rest) = (ofs \<noteq> 0)"
        using "2.prems"(1) la pn
        by (cases prev) (auto simp: boundary_def lookahead_ok_def split: list.splits)
      have rec: "kebab_replace (ofs + n) rest = hyphenate (Some (last us)) rest"
        unfolding n_def rest_def us_def
      proof (rule "2.IH"(2)[OF refl])
        show "kebab_match (c # cs) \<noteq> 0" using run(1) by simp
        show "(ofs + kebab_match (c # cs) = 0)
                = (Some (last (take (kebab_match (c # cs)) (c # cs))) = None)"
          using run(1) by simp
        show "\<not> lookahead_ok ds"
          if "drop (kebab_match (c # cs)) (c # cs) = d # ds" "is_upper d" for p d ds
          using run(4)[OF that] .
      qed
      have "hyphenate (Some c) (us' @ rest)
              = map toLowerCase_char us' @ hyphenate (Some (last us)) rest"
        using hyphenate_run[OF up' True lr] us by simp
      then have "hyphenate prev (c # us' @ rest)
          = (if ofs \<noteq> 0 then ''-'' else []) @ map toLowerCase_char us
              @ hyphenate (Some (last us)) rest"
        using True b us by simp
      then show ?thesis using step n0 rec cs by simp
    next
      case single
      then have n1: "n = 1" by (simp add: n_def)
      from single(2) have "\<not> lookahead_ok cs" by simp
      from not_lookahead_ok[OF this] obtain d ds where d: "cs = d # ds" "is_lower d"
        by blast
      have b: "boundary prev cs = (ofs \<noteq> 0)"
        using "2.prems"(1) d by (cases prev) (auto simp: boundary_def)
      have nu: "\<not> is_upper d" using d(2) upper_not_lower by blast
      have "kebab_replace (ofs + kebab_match (c # cs)) (drop (kebab_match (c # cs)) (c # cs))
              = hyphenate (Some c) (drop (kebab_match (c # cs)) (c # cs))"
      proof (rule "2.IH"(2)[OF refl])
        show "kebab_match (c # cs) \<noteq> 0" using single(1) by simp
        show "(ofs + kebab_match (c # cs) = 0) = (Some c = None)" using single(1) by simp
        show "\<not> lookahead_ok ds'"
          if h: "drop (kebab_match (c # cs)) (c # cs) = d' # ds'" "is_upper d'" for p d' ds'
        proof -
          from h(1) have "cs = d' # ds'" by (simp add: single(1))
          with d(1) nu h(2) show ?thesis by simp
        qed
      qed
      then have rec: "kebab_replace (ofs + n) rest = hyphenate (Some c) cs"
        by (simp add: n_def rest_def single(1))
      have "us = [c]" by (simp add: us_def n1)
      then show ?thesis using step n1 True b rec by simp
    qed
  qed
qed

lemma kebab_replace_no_upper:
  "\<forall>c \<in> set s. \<not> is_upper c \<Longrightarrow> kebab_replace ofs s = s"
  by (induction s arbitrary: ofs) (simp_all add: kebab_match_not_upper)

lemma kebab_replace_lower: "c \<in> set (kebab_replace ofs s) \<Longrightarrow> \<not> is_upper c"
proof (induction ofs s rule: kebab_replace.induct)
  case (1 ofs)
  then show ?case by simp
next
  case (2 ofs d ds)
  show ?case
  proof (cases "kebab_match (d # ds) = 0")
    case True
    then have "\<not> is_upper d" using kebab_match_upper[of d ds] by auto
    with 2 True show ?thesis by (auto simp: Let_def)
  next
    case False
    with 2 show ?thesis
      by (auto simp: Let_def toLowerCase_char_not_upper hyphen_not_upper split: if_splits)
  qed
qed

lemma kebab_replace_letters:
  "filter (\<lambda>c. c \<noteq> CHR ''-'') (kebab_replace ofs s)
     = map toLowerCase_char (filter (\<lambda>c. c \<noteq> CHR ''-'') s)"
proof (induction ofs s rule: kebab_replace.induct)
  case (1 ofs)
  then show ?case by simp
next
  case (2 ofs d ds)
  let ?n = "kebab_match (d # ds)"
  show ?case
  proof (cases "?n = 0")
    case True
    then have "\<not> is_upper d" using kebab_match_upper[of d ds] by auto
    then have "toLowerCase_char d = d" by (rule toLowerCase_char_id)
    with 2(1)[OF refl True] True show ?thesis by (simp add: Let_def)
  next
    case False
    have split: "d # ds = take ?n (d # ds) @ drop ?n (d # ds)" by simp
    have "filter (\<lambda>c. c \<noteq> CHR ''-'') (d # ds)
            = filter (\<lambda>c. c \<noteq> CHR ''-'') (take ?n (d # ds))
              @ filter (\<lambda>c. c \<noteq> CHR ''-'') (drop ?n (d # ds))"
      by (subst split) (simp only: filter_append)
    moreover have "filter (\<lambda>c. c \<noteq> CHR ''-'') (map toLowerCase_char (take ?n (d # ds)))
            = map toLowerCase_char (filter (\<lambda>c. c \<noteq> CHR ''-'') (take ?n (d # ds)))"
      by (simp add: filter_map comp_def toLowerCase_char_hyphen)
    ultimately show ?thesis
      using 2(2)[OF refl False] False
      by (simp add: Let_def del: take_Suc_Cons drop_Suc_Cons)
  qed
qed

lemma toCamelCase_example: "toCamelCase ''on-click'' = ''onClick''"
  by code_simp

text \<open>
  Claim C9, as stated, fails on its second example: the run \<^verbatim>\<open>URL\<close> is one match
  at offset \<open>0\<close>, so it is lower-cased as a whole and gets no hyphen; the result is
  \<^verbatim>\<open>url-value\<close>, not \<^verbatim>\<open>-u-r-l-value\<close>.
\<close>

theorem toKebabCase_acronym_counterexample:
  "toKebabCase ''URLValue'' = ''url-value'' \<and> toKebabCase ''URLValue'' \<noteq> ''-u-r-l-value''"
  by code_simp

text \<open>
  Claim C9, amended. \<^verbatim>\<open>toKebabCase\<close> is a total function on strings with
  \<^verbatim>\<open>onClick\<close> \<open>\<mapsto>\<close> \<^verbatim>\<open>on-click\<close> and \<^verbatim>\<open>URLValue\<close> \<open>\<mapsto>\<close>
  \<^verbatim>\<open>url-value\<close>. A string without an upper-case ASCII letter is returned unchanged.
  For every string the result has no upper-case ASCII letter, and apart from hyphens it
  consists of the letters of the input, lower-cased and in the same order. The hyphens
  are where the rule in words puts them: before an upper-case letter that is not the
  first character and that starts an upper-case run or a capitalised word.
\<close>

theorem toKebabCase_spec:
  "toKebabCase ''onClick'' = ''on-click'' \<and>
   toKebabCase ''URLValue'' = ''url-value'' \<and>
   ((\<forall>c \<in> set s. \<not> is_upper c) \<longrightarrow> toKebabCase s = s) \<and>
   (\<forall>c \<in> set (toKebabCase s). \<not> is_upper c) \<and>
   filter (\<lambda>c. c \<noteq> CHR ''-'') (toKebabCase s)
     = map toLowerCase_char (filter (\<lambda>c. c \<noteq> CHR ''-'') s) \<and>
   toKebabCase s = hyphenate None s"
proof -
  have "toKebabCase s = hyphenate None s"
    unfolding toKebabCase_def by (rule kebab_replace_hyphenate) simp_all
  moreover have "toKebabCase ''onClick'' = ''on-click''" by code_simp
  moreover have "toKebabCase ''URLValue'' = ''url-value''" by code_simp
  moreover have "(\<forall>c \<in> set s. \<not> is_upper c) \<longrightarrow> toKebabCase s = s"
    by (simp add: toKebabCase_def kebab_replace_no_upper)
  moreover have "\<forall>c \<in> set (toKebabCase s). \<not> is_upper c"
    by (auto simp: toKebabCase_def dest: kebab_replace_lower)
  moreover have "filter (\<lambda>c. c \<noteq> CHR ''-'') (toKebabCase s)
     = map toLowerCase_char (filter (\<lambda>c. c \<noteq> CHR ''-'') s)"
    by (simp add: toKebabCase_def kebab_replace_letters)
  ultimately show ?thesis by blast
qed

theorem toKebabCase_spec_witness:
  "\<not> (\<exists>c \<in> set ''custom-date''. is_upper c) \<and>
   toKebabCase ''custom-date'' = ''custom-date'' \<and>
   filter (\<lambda>c. c \<noteq> CHR ''-'') (toKebabCase ''customDate'') = ''customdate''"
proof -
  have a: "\<forall>c \<in> set ''custom-date''. \<not> is_upper c"
    by (simp add: is_upper_def upper_chars_def)
  have b: "map toLowerCase_char (filter (\<lambda>c. c \<noteq> CHR ''-'') ''customDate'') = ''customdate''"
    by code_simp
  from a have c: "\<not> (\<exists>c \<in> set ''custom-date''. is_upper c)" by blast
  from toKebabCase_spec [of "''custom-date''"] a
  have d: "toKebabCase ''custom-date'' = ''custom-date''" by blast
  from toKebabCase_spec [of "''customDate''"]
  have "filter (\<lambda>c. c \<noteq> CHR ''-'') (toKebabCase ''customDate'')
          = map toLowerCase_char (filter (\<lambda>c. c \<noteq> CHR ''-'') ''customDate'')"
    by blast
  then have e: "filter (\<lambda>c. c \<noteq> CHR ''-'') (toKebabCase ''customDate'') = ''customdate''"
    by (simp only: b)
  from c d e show ?thesis by blast
qed

subsection \<open>Recognised names and observed attributes\<close>

lemma fold_set_add_set: "set (fold set_add xs acc) = set acc \<union> set xs"
  by (induction xs arbitrary: acc) (auto simp: set_add_def)

lemma fold_set_add_distinct: "distinct acc \<Longrightarrow> distinct (fold set_add xs acc)"
  by (induction xs arbitrary: acc) (auto simp: set_add_def)

lemma set_uniq [simp]: "set (uniq xs) = set xs"
  by (simp add: uniq_def fold_set_add_set)

lemma distinct_uniq [simp]: "distinct (uniq xs)"
  by (simp add: uniq_def fold_set_add_distinct)


lemma clock_names_eval:
  "register_propNames clock_names = [''time'', ''customDate'', ''custom-date''] \<and>
   clock_observed = [''time'', ''custom-date'']"
  by code_simp

subsection \<open>Objects, equality and the attribute-changed callback\<close>

lemma obj_get_set: "obj_get (obj_set ob k v) k' = (if k' = k then v else obj_get ob k')"
  by (simp add: obj_get_def obj_set_def update_conv')

lemma obj_get_absent:
  "map_of ob k = None \<Longrightarrow> k \<notin> set object_prototype_keys \<Longrightarrow> obj_get ob k = Undefined"
  by (simp add: obj_get_def)

lemma obj_get_inherited:
  "map_of ob k = None \<Longrightarrow> k \<in> set object_prototype_keys \<Longrightarrow> obj_get ob k = Inherited k"
  by (simp add: obj_get_def)

lemma strict_eq_sym: "strict_eq a b = strict_eq b a"
  by (cases a; cases b) auto

lemma strict_eq_loose_null: "strict_eq a b \<Longrightarrow> loose_null a = loose_null b"
  by (cases a; cases b) auto


lemma normalize_newVal_Str [simp]: "normalize_newVal (Str s) st = (Str s, st)"
  by (simp add: normalize_newVal_def isDomElement_def)

lemma attributeChangedCallback_same:
  "normalize_newVal newVal st = (v, st1) \<Longrightarrow> strict_eq v oldVal \<Longrightarrow>
   attributeChangedCallback name oldVal newVal st = st1"
  by (simp add: attributeChangedCallback_def)




subsection \<open>Registration\<close>


text \<open>
  On such a registration the two recognised spellings are two attributes, and an update
  of the one leaves the other's stored value behind.
\<close>

lemma casing_variants_diverge:
  "on_return (accessor_get ''size2'')
     (then_call
        (setAttribute valid_attribute_name (register_observedAttributes [''size-2'']) ''size-2'' (Str ''a'')
           clock_element)
        (setAttribute valid_attribute_name (register_observedAttributes [''size-2'']) ''size2'' (Str ''b'')))
     = Inr (Str ''b'') \<and>
   on_return (accessor_get ''size-2'')
     (then_call
        (setAttribute valid_attribute_name (register_observedAttributes [''size-2'']) ''size-2'' (Str ''a'')
           clock_element)
        (setAttribute valid_attribute_name (register_observedAttributes [''size-2'']) ''size2'' (Str ''b'')))
     = Inr (Str ''a'')"
  by code_simp



subsection \<open>Attribute changes before the first render\<close>




subsection \<open>Writing and reading a property\<close>

lemma mirrors_new:
  "name \<notin> set object_prototype_keys \<Longrightarrow> mirrors (PreactElement C opts e r sid tid) name"
  by (simp add: mirrors_def PreactElement_def Let_def obj_get_def)

lemma inherited_name_not_mirrored:
  "name \<in> set object_prototype_keys \<Longrightarrow> \<not> mirrors (PreactElement C opts e r sid tid) name"
  by (simp add: mirrors_def PreactElement_def Let_def obj_get_def)


text \<open>
  Three more inputs the amended claim has to leave out. A recognised name that is
  neither its own kebab-case form nor the camel-case form of it is never written by the
  callback: \<^verbatim>\<open>URLValue\<close> is reflected to \<^verbatim>\<open>url-value\<close>, which is stored as
  \<^verbatim>\<open>urlValue\<close>. When the stored value does not mirror the attribute (here: the
  props were cleared by a disconnect, the attribute stayed), writing the attribute's own
  string is not stored. And when the kebab-case form of the name is not a valid
  attribute name (here: it has a space), \<^verbatim>\<open>setAttribute\<close> throws and the write
  stores nothing.
\<close>

lemma acronym_name_not_read_back:
  "''URLValue'' \<in> set (register_propNames [''URLValue'']) \<and>
   toKebabCase ''URLValue'' = ''url-value'' \<and> toCamelCase ''url-value'' = ''urlValue'' \<and>
   on_return (accessor_get ''URLValue'')
     (accessor_set valid_attribute_name (register_observedAttributes [''URLValue'']) ''URLValue'' (Str ''x'')
        clock_element) = Inr Undefined"
  by code_simp

lemma write_after_disconnect_not_read_back:
  "on_return (\<lambda>st. mirrors st ''time'') clock_detached = Inr False \<and>
   on_return (accessor_get ''time'')
     (then_call clock_detached (accessor_set valid_attribute_name clock_observed ''time'' (Str ''a'')))
     = Inr Undefined"
  by code_simp

lemma invalid_name_write_throws:
  "''first name'' \<in> set (register_propNames [''first name'']) \<and>
   toKebabCase ''first name'' = ''first name'' \<and>
   mirrors clock_element ''first name'' \<and>
   accessor_set valid_attribute_name (register_observedAttributes [''first name'']) ''first name'' (Str ''x'')
     clock_element = Inl InvalidCharacterError"
  by code_simp



subsection \<open>Writing the stored value again\<close>

text \<open>
  Writing to the accessor a value that is \<^verbatim>\<open>===\<close> the stored one changes nothing,
  for every value but \<^verbatim>\<open>undefined\<close> (a DOM node is never a stored value: the
  callback stores its conversion). Setting an attribute to the string it holds changes
  nothing either.
\<close>

lemma accessor_set_same_value:
  assumes "strict_eq (obj_get (props st) name) v" and "v \<noteq> Undefined"
      and "\<not> isDomElement v"
  shows "accessor_set valid observed name v st = Inr st"
proof (cases "isPrimitive v")
  case True
  with assms(1,2) have "strict_eq (nullish (obj_get (props st) name) Null) v"
    by (cases v; cases "obj_get (props st) name") (auto simp: nullish_def)
  with True show ?thesis by (simp add: accessor_set_def)
next
  case False
  then have nn: "\<not> loose_null v" by (auto simp: isPrimitive_def)
  with assms(1) have "nullish (obj_get (props st) name) Null = obj_get (props st) name"
    by (auto simp: nullish_def dest: strict_eq_loose_null)
  moreover have "normalize_newVal v st = (v, st)"
    using nn assms(3) by (simp add: normalize_newVal_def)
  ultimately show ?thesis
    using False assms(1)
    by (simp add: accessor_set_def attributeChangedCallback_same strict_eq_sym)
qed

lemma setAttribute_same_value:
  "valid name \<Longrightarrow> map_of (attrs st) name = Some s \<Longrightarrow>
   setAttribute valid observed name (Str s) st = Inr st"
  by (simp add: setAttribute_def Let_def update_triv attr_value_def
        attributeChangedCallback_same)

text \<open>
  Claim C2, at the input where the code departs from it. On a new element the stored
  value of \<^verbatim>\<open>time\<close> is \<^verbatim>\<open>undefined\<close>; writing \<^verbatim>\<open>undefined\<close>, a
  primitive that is \<^verbatim>\<open>===\<close> the stored value, nevertheless sets the attribute
  \<^verbatim>\<open>time\<close>, to the string \<^verbatim>\<open>"undefined"\<close>: the stored value was coalesced
  to \<^verbatim>\<open>null\<close> before the comparison, the written value was not.
\<close>

theorem accessor_set_undefined_sets_attribute:
  "isPrimitive Undefined \<and>
   strict_eq (accessor_get ''time'' clock_element) Undefined \<and>
   map_of (attrs clock_element) ''time'' = None \<and>
   on_return attrs (accessor_set valid_attribute_name clock_observed ''time'' Undefined clock_element)
     = Inr [(''time'', ''undefined'')]"
  by code_simp

text \<open>
  Claim C6, at the input where the code departs from it. On a connected element whose
  stored \<^verbatim>\<open>time\<close> is \<^verbatim>\<open>undefined\<close>, writing \<^verbatim>\<open>undefined\<close> is not a
  no-op: the props now hold the string \<^verbatim>\<open>"undefined"\<close> and a second render call
  was made.
\<close>

theorem accessor_set_undefined_rerenders:
  "on_return (accessor_get ''time'') clock_connected = Inr Undefined \<and>
   strict_eq Undefined Undefined \<and>
   on_return render_count clock_connected = Inr 1 \<and>
   on_return (accessor_get ''time'')
     (then_call clock_connected (accessor_set valid_attribute_name clock_observed ''time'' Undefined))
     = Inr (Str ''undefined'') \<and>
   on_return render_count
     (then_call clock_connected (accessor_set valid_attribute_name clock_observed ''time'' Undefined))
     = Inr 2"
  by code_simp

subsection \<open>Writing \<^verbatim>\<open>null\<close> to an unset property\<close>

text \<open>
  Claim C10, as stated, fails for a recognised name that every object inherits from
  \<^verbatim>\<open>Object.prototype\<close>. After
  \<^verbatim>\<open>register(Printable, 'x-printable', ['toString'])\<close> the name
  \<^verbatim>\<open>toString\<close> was never set on a new element, yet \<^verbatim>\<open>_props.toString\<close>
  reads the inherited function; it is not coalesced to \<^verbatim>\<open>null\<close>, the comparison
  with the written \<^verbatim>\<open>null\<close> fails, and the setter sets the attribute
  \<^verbatim>\<open>to-string\<close> to the string \<^verbatim>\<open>"null"\<close>, which the callback stores.
\<close>

theorem accessor_set_null_inherited_counterexample:
  "''toString'' \<in> set (register_propNames printable_names) \<and>
   props printable_element = [] \<and> attrs printable_element = [] \<and>
   on_return attrs (accessor_set valid_attribute_name printable_observed ''toString'' Null printable_element)
     = Inr [(''to-string'', ''null'')] \<and>
   on_return (accessor_get ''toString'')
     (accessor_set valid_attribute_name printable_observed ''toString'' Null printable_element)
     = Inr (Str ''null'')"
  by code_simp

text \<open>
  Claim C10, amended. When the stored value of a name reads \<^verbatim>\<open>undefined\<close> (the
  name was never set and is not one every object inherits, or \<^verbatim>\<open>undefined\<close> was
  stored), writing \<^verbatim>\<open>null\<close> to its accessor returns and leaves the whole instance
  as it was: the old value is coalesced to \<^verbatim>\<open>null\<close>, the comparison succeeds and
  the setter returns before any attribute is set or any callback runs.
\<close>

theorem accessor_set_null_when_absent:
  "obj_get (props st) name = Undefined \<Longrightarrow>
   accessor_set valid observed name Null st = Inr st"
  by (simp add: accessor_set_def nullish_def isPrimitive_def)

theorem accessor_set_null_when_absent_witness:
  "obj_get (props clock_element) ''time'' = Undefined \<and>
   accessor_set valid_attribute_name clock_observed ''time'' Null clock_element = Inr clock_element"
  using accessor_set_null_when_absent
    [of clock_element "''time''" valid_attribute_name clock_observed]
  by (simp add: clock_element_def PreactElement_def obj_get_def object_prototype_keys_def)

text \<open>
  The premise in terms of the own properties: a name that was never set reads
  \<^verbatim>\<open>undefined\<close> exactly when no object inherits it.
\<close>

lemma never_set_reads_undefined:
  "map_of (props st) name = None \<Longrightarrow>
   (obj_get (props st) name = Undefined) = (name \<notin> set object_prototype_keys)"
  by (simp add: obj_get_def)

subsection \<open>Disconnecting\<close>

text \<open>
  Claim C8. \<^verbatim>\<open>disconnectedCallback\<close> leaves the instance with empty props and
  slots and with no tree (\<^verbatim>\<open>_vdom\<close> is \<^verbatim>\<open>null\<close>), and its one call of the
  rendering engine renders \<^verbatim>\<open>null\<close> into the render root. The attributes and
  the child nodes of the element are not touched.
\<close>

theorem disconnectedCallback_clears:
  "props (disconnectedCallback st) = [] \<and>
   slots (disconnectedCallback st) = [] \<and>
   vdom (disconnectedCallback st) = Null \<and>
   rendered (disconnectedCallback st) = rendered st @ [(RenderCall, Null, root_id st)] \<and>
   attrs (disconnectedCallback st) = attrs st \<and>
   childNodes (disconnectedCallback st) = childNodes st"
  by (simp add: disconnectedCallback_def render_def root_id_def split: option.splits)

subsection \<open>Slot groups\<close>

lemma getSlots_step_Inl [simp]: "getSlots_step c (Inl e) = Inl e"
  by (simp add: getSlots_step_def)

lemma fold_getSlots_step_Inl [simp]: "fold getSlots_step cs (Inl e) = Inl e"
  by (induction cs) simp_all

lemma getSlots_step_skip:
  "\<not> isDomElement (DomV c) \<Longrightarrow> getSlots_step c (Inr (sl, st)) = Inr (sl, st)"
  by (simp add: getSlots_step_def)


text \<open>
  The loop goes on from the result of a round that returned; a round that threw has
  ended it.
\<close>

lemma fold_getSlots_step_Cons:
  assumes "fold getSlots_step (c # cs) (Inr (sl, st)) = Inr (sl', st')"
  obtains sl1 st1 where "getSlots_step c (Inr (sl, st)) = Inr (sl1, st1)"
    and "fold getSlots_step cs (Inr (sl1, st1)) = Inr (sl', st')"
proof (cases "getSlots_step c (Inr (sl, st))")
  case (Inl e)
  with assms show ?thesis by simp
next
  case (Inr p)
  with assms that show ?thesis by (cases p) simp
qed



lemma arrays_only_get:
  "arrays_only sl \<Longrightarrow>
   (map_of sl k = None \<and> obj_get sl k = Undefined) \<or>
   (map_of sl k = None \<and> k \<in> set object_prototype_keys \<and> obj_get sl k = Inherited k) \<or>
   (\<exists>j vs. obj_get sl k = Arr j vs)"
  by (induction sl) (auto simp: arrays_only_def obj_get_def split: jsval.splits)

lemma arrays_only_set:
  "arrays_only sl \<Longrightarrow> arrays_only (obj_set sl k (Arr j vs))"
  by (induction sl) (auto simp: arrays_only_def obj_set_def)

text \<open>
  One round of the loop on a child it does not skip. Under a key the new object
  inherits, the round throws.
\<close>

lemma getSlots_step_inherited:
  assumes "isDomElement (DomV c)" and "map_of sl (slot_key c) = None"
      and "slot_key c \<in> set object_prototype_keys"
  shows "getSlots_step c (Inr (sl, st)) = Inl TypeError"
  using assms
  by (simp add: getSlots_step_def slot_key_def h_def Let_def obj_get_def)

text \<open>
  Otherwise a new placeholder of that child is appended to the group of the child's
  key, and no other group changes.
\<close>

lemma getSlots_step_push:
  assumes q: "isDomElement (DomV c)" and a: "arrays_only sl"
      and s: "getSlots_step c (Inr (sl, st)) = Inr (sl', st')"
  shows "arrays_only sl' \<and>
         (\<exists>v. placeholder_of c v \<and>
              (\<forall>k. group_of sl' k = group_of sl k @ (if k = slot_key c then [v] else [])))"
proof -
  let ?key = "slot_key c"
  from arrays_only_get[OF a, of ?key]
  consider (new) "obj_get sl ?key = Undefined"
    | (inh) "map_of sl ?key = None" "?key \<in> set object_prototype_keys"
    | (old) j vs where "obj_get sl ?key = Arr j vs"
    by auto
  then show ?thesis
  proof cases
    case new
    note u = new
    let ?v = "VNode (Suc (next_id st)) Slot
                [(''name'', if truthy (node_slot c) then node_slot c else Undefined)] []"
    from q u s have sl': "sl' = obj_set (obj_set sl ?key (Arr (next_id st) [])) ?key
                               (Arr (next_id st) [?v])"
      by (auto simp: getSlots_step_def slot_key_def h_def Let_def obj_get_set)
    have "placeholder_of c ?v" by (simp add: placeholder_of_def)
    moreover have "\<forall>k. group_of sl' k = group_of sl k @ (if k = ?key then [?v] else [])"
      using u by (simp add: sl' group_of_def obj_get_set)
    moreover have "arrays_only sl'" unfolding sl' using a by (intro arrays_only_set)
    ultimately show ?thesis by blast
  next
    case inh
    with q s getSlots_step_inherited[OF q inh, of st] show ?thesis by simp
  next
    case old
    note u = old
    let ?v = "VNode (next_id st) Slot
                [(''name'', if truthy (node_slot c) then node_slot c else Undefined)] []"
    from q u s have sl': "sl' = obj_set sl ?key (Arr j (vs @ [?v]))"
      by (auto simp: getSlots_step_def slot_key_def h_def Let_def)
    have "placeholder_of c ?v" by (simp add: placeholder_of_def)
    moreover have "\<forall>k. group_of sl' k = group_of sl k @ (if k = ?key then [?v] else [])"
      using u by (simp add: sl' group_of_def obj_get_set)
    moreover have "arrays_only sl'" unfolding sl' using a by (intro arrays_only_set)
    ultimately show ?thesis by blast
  qed
qed

lemma fold_getSlots_step_groups:
  "arrays_only sl \<Longrightarrow> fold getSlots_step cs (Inr (sl, st)) = Inr (sl', st') \<Longrightarrow>
   \<exists>vs. group_of sl' k = group_of sl k @ vs \<and>
        list_all2 placeholder_of (filter (\<lambda>c. slot_key c = k) (qualifying cs)) vs"
proof (induction cs arbitrary: sl st)
  case Nil
  then show ?case by (simp add: qualifying_def)
next
  case (Cons c cs)
  from Cons.prems(2) obtain sl1 st1
    where s: "getSlots_step c (Inr (sl, st)) = Inr (sl1, st1)"
      and f: "fold getSlots_step cs (Inr (sl1, st1)) = Inr (sl', st')"
    by (rule fold_getSlots_step_Cons)
  show ?case
  proof (cases "isDomElement (DomV c)")
    case False
    with s have "sl1 = sl" by (simp add: getSlots_step_skip)
    with Cons.IH[OF _ f] Cons.prems(1) False show ?thesis by (simp add: qualifying_def)
  next
    case True
    from getSlots_step_push[OF True Cons.prems(1) s] obtain v where
      a1: "arrays_only sl1" and p: "placeholder_of c v"
      and g: "\<And>k. group_of sl1 k = group_of sl k @ (if k = slot_key c then [v] else [])"
      by blast
    from Cons.IH[OF a1 f] obtain vs where
      vs: "group_of sl' k = group_of sl1 k @ vs"
          "list_all2 placeholder_of (filter (\<lambda>c. slot_key c = k) (qualifying cs)) vs"
      by blast
    show ?thesis
      using vs p g[of k] True by (auto simp: qualifying_def)
  qed
qed

text \<open>
  \<^verbatim>\<open>getSlots\<close>, when it returns: under every key, one placeholder for each text
  or element child filed under that key, in document order.
\<close>

lemma getSlots_groups:
  assumes "getSlots st = Inr (sl, st')"
  shows "list_all2 placeholder_of
           (filter (\<lambda>c. slot_key c = k) (qualifying (childNodes st))) (group_of sl k)"
proof -
  have e: "group_of [] k = []" by (simp add: group_of_def obj_get_def)
  have "arrays_only []" by (simp add: arrays_only_def)
  from fold_getSlots_step_groups[OF this assms[unfolded getSlots_def], of k]
  show ?thesis by (simp add: e)
qed

lemma keys_obj_set: "fst ` set (obj_set ob k v) = insert k (fst ` set ob)"
proof -
  have "set (map fst (AList.update k v ob)) = insert k (set (map fst ob))"
    by (auto simp: update_keys)
  then show ?thesis by (simp add: obj_set_def)
qed

lemma qualifying_Cons: "qualifying (c # cs) = qualifying [c] @ qualifying cs"
  by (simp add: qualifying_def)

lemma getSlots_step_shape:
  "isDomElement (DomV c) \<Longrightarrow> getSlots_step c (Inr (sl, st)) = Inr (sl', st') \<Longrightarrow>
   \<exists>v w. sl' = obj_set sl (slot_key c) v
        \<or> sl' = obj_set (obj_set sl (slot_key c) w) (slot_key c) v"
  by (auto simp: getSlots_step_def slot_key_def h_def Let_def split: if_splits sum.splits)

lemma getSlots_step_keys:
  assumes "getSlots_step c (Inr (sl, st)) = Inr (sl', st')"
  shows "fst ` set sl' \<subseteq> fst ` set sl \<union> slot_key ` set (qualifying [c])"
proof (cases "isDomElement (DomV c)")
  case False
  with assms show ?thesis by (simp add: getSlots_step_skip)
next
  case True
  from getSlots_step_shape[OF True assms]
  have "fst ` set sl' = insert (slot_key c) (fst ` set sl)"
    by (elim exE disjE; simp add: keys_obj_set)
  with True show ?thesis by (simp add: qualifying_def)
qed

lemma fold_getSlots_step_keys:
  "fold getSlots_step cs (Inr (sl, st)) = Inr (sl', st') \<Longrightarrow>
   fst ` set sl' \<subseteq> fst ` set sl \<union> slot_key ` set (qualifying cs)"
proof (induction cs arbitrary: sl st)
  case Nil
  then show ?case by (simp add: qualifying_def)
next
  case (Cons c cs)
  from Cons.prems obtain sl1 st1
    where s: "getSlots_step c (Inr (sl, st)) = Inr (sl1, st1)"
      and f: "fold getSlots_step cs (Inr (sl1, st1)) = Inr (sl', st')"
    by (rule fold_getSlots_step_Cons)
  have "slot_key ` set (qualifying (c # cs))
          = slot_key ` set (qualifying [c]) \<union> slot_key ` set (qualifying cs)"
    by (simp add: qualifying_Cons[of c cs] image_Un)
  with Cons.IH[OF f] getSlots_step_keys[OF s] show ?case by blast
qed

lemma getSlots_step_distinct:
  assumes "getSlots_step c (Inr (sl, st)) = Inr (sl', st')" and "distinct (map fst sl)"
  shows "distinct (map fst sl')"
proof (cases "isDomElement (DomV c)")
  case False
  with assms show ?thesis by (simp add: getSlots_step_skip)
next
  case True
  from getSlots_step_shape[OF True assms(1)] assms(2) show ?thesis
    by (elim exE disjE; simp add: obj_set_def distinct_update)
qed

lemma fold_getSlots_step_distinct:
  "fold getSlots_step cs (Inr (sl, st)) = Inr (sl', st') \<Longrightarrow> distinct (map fst sl) \<Longrightarrow>
   distinct (map fst sl')"
proof (induction cs arbitrary: sl st)
  case Nil
  then show ?case by simp
next
  case (Cons c cs)
  from Cons.prems(1) obtain sl1 st1
    where s: "getSlots_step c (Inr (sl, st)) = Inr (sl1, st1)"
      and f: "fold getSlots_step cs (Inr (sl1, st1)) = Inr (sl', st')"
    by (rule fold_getSlots_step_Cons)
  from Cons.IH[OF f getSlots_step_distinct[OF s Cons.prems(2)]] show ?case .
qed

text \<open>
  When \<^verbatim>\<open>getSlots\<close> returns and when it throws: it throws, a
  \<^verbatim>\<open>TypeError\<close>, exactly when a text or element child is filed under a key the
  new object inherits.
\<close>

lemma getSlots_step_returns:
  assumes a: "arrays_only sl"
      and nk: "isDomElement (DomV c) \<longrightarrow> slot_key c \<notin> set object_prototype_keys"
  shows "\<exists>sl' st'. getSlots_step c (Inr (sl, st)) = Inr (sl', st') \<and> arrays_only sl'"
proof (cases "isDomElement (DomV c)")
  case False
  with a show ?thesis by (simp add: getSlots_step_skip)
next
  case True
  with nk have nk': "slot_key c \<notin> set object_prototype_keys" by simp
  from arrays_only_get[OF a, of "slot_key c"] nk'
  have "obj_get sl (slot_key c) = Undefined \<or> (\<exists>j vs. obj_get sl (slot_key c) = Arr j vs)"
    by blast
  then obtain sl' st' where s: "getSlots_step c (Inr (sl, st)) = Inr (sl', st')"
    using True
    by (auto simp: getSlots_step_def slot_key_def h_def Let_def obj_get_set)
  with getSlots_step_push[OF True a s] show ?thesis by blast
qed


lemma fold_getSlots_step_throws:
  "arrays_only sl \<Longrightarrow> fst ` set sl \<inter> set object_prototype_keys = {} \<Longrightarrow>
   c \<in> set (qualifying cs) \<Longrightarrow> slot_key c \<in> set object_prototype_keys \<Longrightarrow>
   fold getSlots_step cs (Inr (sl, st)) = Inl TypeError"
proof (induction cs arbitrary: sl st)
  case Nil
  then show ?case by (simp add: qualifying_def)
next
  case (Cons d ds)
  show ?case
  proof (cases "isDomElement (DomV d) \<and> slot_key d \<in> set object_prototype_keys")
    case True
    with Cons.prems(2) have "map_of sl (slot_key d) = None"
      by (auto simp: map_of_eq_None_iff)
    with True show ?thesis by (simp add: getSlots_step_inherited)
  next
    case False
    then have nk: "isDomElement (DomV d) \<longrightarrow> slot_key d \<notin> set object_prototype_keys"
      by blast
    from getSlots_step_returns[OF Cons.prems(1) nk, of st] obtain sl1 st1
      where s: "getSlots_step d (Inr (sl, st)) = Inr (sl1, st1)" and a1: "arrays_only sl1"
      by blast
    have "slot_key ` set (qualifying [d]) \<inter> set object_prototype_keys = {}"
      using nk by (auto simp: qualifying_def)
    with getSlots_step_keys[OF s] Cons.prems(2)
    have k1: "fst ` set sl1 \<inter> set object_prototype_keys = {}"
      by blast
    from Cons.prems(3,4) False have "c \<in> set (qualifying ds)"
      by (auto simp: qualifying_def split: if_splits)
    from Cons.IH[OF a1 k1 this Cons.prems(4), of st1] s show ?thesis by simp
  qed
qed


lemma getSlots_throws:
  "c \<in> set (qualifying (childNodes st)) \<Longrightarrow> slot_key c \<in> set object_prototype_keys \<Longrightarrow>
   getSlots st = Inl TypeError"
  unfolding getSlots_def
  by (rule fold_getSlots_step_throws) (simp_all add: arrays_only_def)

lemma obj_get_fold_set:
  "obj_get (fold (\<lambda>(k, v) ob. obj_set ob k v) b a) k
     = (case map_of (rev b) k of Some v \<Rightarrow> v | None \<Rightarrow> obj_get a k)"
  by (induction b arbitrary: a) (auto simp: obj_get_set split: option.splits)

lemma obj_get_spread:
  "obj_get (spread a b) k = (case map_of (rev b) k of Some v \<Rightarrow> v | None \<Rightarrow> obj_get a k)"
  by (simp add: spread_def obj_get_fold_set)

lemma map_of_rev_distinct: "distinct (map fst xs) \<Longrightarrow> map_of (rev xs) = map_of xs"
proof (induction xs)
  case Nil
  then show ?case by simp
next
  case (Cons x xs)
  then have "fst x \<notin> dom (map_of xs)" by (simp add: dom_map_of_conv_image_fst)
  with Cons show ?case
    by (cases x) (auto simp: map_add_def fun_eq_iff split: option.splits)
qed

lemma named_slots_lookup:
  assumes "distinct (map fst sl)" and "k \<noteq> []"
  shows "map_of (rev (filter (\<lambda>(k, v). k \<noteq> []) sl)) k = map_of sl k"
proof -
  have f: "filter (\<lambda>(k, v). k \<noteq> []) sl = filter (\<lambda>x. fst x \<noteq> []) sl"
    by (rule filter_cong) auto
  have "distinct (map fst (filter (\<lambda>x. fst x \<noteq> []) sl))"
    using assms(1) by (simp add: distinct_map_filter)
  moreover have "map_of (filter (\<lambda>x. fst x \<noteq> []) sl) k = map_of sl k"
    using assms(2) by (induction sl) auto
  ultimately show ?thesis by (simp add: f map_of_rev_distinct)
qed

text \<open>
  \<^verbatim>\<open>connectedCallback\<close> returns when \<^verbatim>\<open>getSlots\<close> does, and throws what
  \<^verbatim>\<open>getSlots\<close> throws.
\<close>

lemma connectedCallback_slots:
  "getSlots st = Inr (sl, st1) \<Longrightarrow>
   \<exists>st'. connectedCallback reg ancestors st = Inr st' \<and>
     slots st' = spread [(''children'', obj_get sl [])] (filter (\<lambda>(k, v). k \<noteq> []) sl)"
  by (simp add: connectedCallback_def Let_def h_def render_def hydrate_def split: prod.splits)

lemma connectedCallback_getSlots:
  "connectedCallback reg ancestors st = Inr st' \<Longrightarrow> \<exists>sl st1. getSlots st = Inr (sl, st1)"
  by (cases "getSlots st") (auto simp: connectedCallback_def)


lemma connectedCallback_throws:
  "c \<in> set (qualifying (childNodes st)) \<Longrightarrow> slot_key c \<in> set object_prototype_keys \<Longrightarrow>
   connectedCallback reg ancestors st = Inl TypeError"
  by (simp add: connectedCallback_def getSlots_throws)

lemma inherited_slot_key_throws:
  "connectedCallback [] []
     (clock_element\<lparr>childNodes := [ElementNode 7 ''SPAN'' [(''slot'', ''constructor'')] []]\<rparr>)
     = Inl TypeError"
  by code_simp

text \<open>
  What \<^verbatim>\<open>connectedCallback\<close> exposes when it returns and no child is filed under
  the key \<^verbatim>\<open>children\<close>: under \<^verbatim>\<open>children\<close> the placeholders of the children
  filed under the empty key, and under every other non-empty key the placeholders of the
  children filed under that key; in both cases one per child, in document order. An
  element is filed under its \<^verbatim>\<open>slot\<close> attribute (the empty key without one); a
  text node is filed under \<^verbatim>\<open>undefined\<close>.
\<close>

lemma connected_slot_groups:
  assumes nc: "''children'' \<notin> slot_key ` set (qualifying (childNodes st))" and k: "k \<noteq> []"
      and conn: "connectedCallback reg ancestors st = Inr st'"
  shows "list_all2 placeholder_of
           (filter (\<lambda>c. slot_key c = (if k = ''children'' then [] else k))
              (qualifying (childNodes st)))
           (group_of (slots st') k)"
proof -
  from connectedCallback_getSlots[OF conn] obtain sl st1
    where g: "getSlots st = Inr (sl, st1)" by blast
  have keys: "fst ` set sl \<subseteq> slot_key ` set (qualifying (childNodes st))"
    using fold_getSlots_step_keys[OF g[unfolded getSlots_def]] by simp
  have d: "distinct (map fst sl)"
    using fold_getSlots_step_distinct[OF g[unfolded getSlots_def]] by simp
  from connectedCallback_slots[OF g, of reg ancestors] conn
  have sl': "slots st' = spread [(''children'', obj_get sl [])] (filter (\<lambda>(k, v). k \<noteq> []) sl)"
    by simp
  have sl: "obj_get (slots st') k
              = (case map_of sl k of Some v \<Rightarrow> v
                 | None \<Rightarrow> obj_get [(''children'', obj_get sl [])] k)"
    by (simp add: sl' obj_get_spread named_slots_lookup[OF d k])
  show ?thesis
  proof (cases "k = ''children''")
    case True
    with nc keys have "map_of sl k = None" by (auto simp: map_of_eq_None_iff)
    with sl True have "group_of (slots st') k = group_of sl []"
      by (simp add: group_of_def obj_get_def)
    with getSlots_groups[OF g, of "[]"] True show ?thesis by simp
  next
    case False
    with sl have "obj_get (slots st') k = obj_get sl k"
      by (simp add: obj_get_def split: option.splits)
    then have "group_of (slots st') k = group_of sl k"
      by (simp add: group_of_def)
    with getSlots_groups[OF g, of k] False show ?thesis by simp
  qed
qed

text \<open>
  Claim C3, at the input where the code departs from it. An element whose only child is
  a text node: the text node has no \<^verbatim>\<open>slot\<close> property, its placeholder is filed
  under the key \<^verbatim>\<open>undefined\<close>, and \<^verbatim>\<open>children\<close> is \<^verbatim>\<open>undefined\<close>.
\<close>

theorem text_child_slot_group:
  "on_return slots
     (connectedCallback [] [] (clock_element\<lparr>childNodes := [TextNode 7 ''hi'']\<rparr>))
     = Inr [(''children'', Undefined),
            (''undefined'', Arr 0 [VNode 1 Slot [(''name'', Undefined)] []])]"
  by code_simp

subsection \<open>The context bridge\<close>



lemma event_path_ctx [simp]: "event_path ctx_event chain = map fst chain"
  by (simp add: event_path_def ctx_event_def)










subsection \<open>Scenarios of the test suite\<close>

text \<open>
  "handles mapping kebab-case and camelCase props to attributes": an element registered
  with the names \<^verbatim>\<open>kebab-name\<close> and \<^verbatim>\<open>camelName\<close>; both properties are
  written, the element is connected, then the attribute \<^verbatim>\<open>kebab-name\<close> is set. The
  attributes and the property read at the end are those the test expects.
\<close>

lemma test_prop_name_transform:
  "register_propNames [''kebab-name'', ''camelName'']
     = [''kebabName'', ''camelName'', ''kebab-name'', ''camel-name''] \<and>
   register_observedAttributes [''kebab-name'', ''camelName'']
     = [''kebab-name'', ''camel-name''] \<and>
   on_return attrs
     (then_call
        (then_call
           (accessor_set valid_attribute_name (register_observedAttributes [''kebab-name'', ''camelName''])
              ''kebab-name'' (Str ''kebab name value'') clock_element)
           (accessor_set valid_attribute_name (register_observedAttributes [''kebab-name'', ''camelName''])
              ''camelName'' (Str ''camel name value'')))
        (connectedCallback [] []))
     = Inr [(''kebab-name'', ''kebab name value''), (''camel-name'', ''camel name value'')] \<and>
   on_return (accessor_get ''kebab-name'')
     (then_call
        (then_call
           (then_call
              (accessor_set valid_attribute_name (register_observedAttributes [''kebab-name'', ''camelName''])
                 ''kebab-name'' (Str ''kebab name value'') clock_element)
              (accessor_set valid_attribute_name (register_observedAttributes [''kebab-name'', ''camelName''])
                 ''camelName'' (Str ''camel name value'')))
           (connectedCallback [] []))
        (setAttribute valid_attribute_name (register_observedAttributes [''kebab-name'', ''camelName''])
           ''kebab-name'' (Str ''updated kebab value'')))
     = Inr (Str ''updated kebab value'')"
  by code_simp

text \<open>
  "renders slots as props with shadow DOM": a \<^verbatim>\<open>div\<close> without a slot attribute and
  a \<^verbatim>\<open>span\<close> with \<^verbatim>\<open>slot="text"\<close>. The component gets one unnamed placeholder
  as \<^verbatim>\<open>children\<close> and one placeholder named \<^verbatim>\<open>text\<close> as \<^verbatim>\<open>text\<close>.
\<close>

lemma test_slots_as_props:
  "on_return slots
     (connectedCallback [] []
        (theme_element\<lparr>childNodes :=
           [ElementNode 20 ''DIV'' [] [TextNode 21 ''no slot''],
            ElementNode 22 ''SPAN'' [(''slot'', ''text'')] [TextNode 23 ''here is a slot'']]\<rparr>))
     = Inr [(''children'', Arr 0 [VNode 1 Slot [(''name'', Undefined)] []]),
            (''text'', Arr 2 [VNode 3 Slot [(''name'', Str ''text'')] []])]"
  by code_simp

text \<open>
  "renders ok, updates on attr change": the attribute is set before the element is
  connected, which makes no render call; connecting renders the component with the
  prop; changing the attribute renders it again with the new value.
\<close>

lemma test_clock_attribute_change:
  "on_return rendered
     (setAttribute valid_attribute_name clock_observed ''time'' (Str ''10:28:57 PM'') clock_element) = Inr [] \<and>
   on_return
     (\<lambda>st. map (\<lambda>(e, tree, root).
                 (e, case tree of VNode _ _ _ [VNode _ _ ps _] \<Rightarrow> obj_get ps ''time''
                     | _ \<Rightarrow> Undefined))
              (rendered st))
     (then_call
        (then_call
           (setAttribute valid_attribute_name clock_observed ''time'' (Str ''10:28:57 PM'') clock_element)
           (connectedCallback [] []))
        (setAttribute valid_attribute_name clock_observed ''time'' (Str ''11:01:10 AM'')))
     = Inr [(RenderCall, Str ''10:28:57 PM''), (RenderCall, Str ''11:01:10 AM'')]"
  by code_simp

end
